theory Spec2Isabelle
  imports Main "HOL-Library.Word"
begin

unbundle bit_operations_syntax

section \<open>Byte buffers\<close>

text \<open>
  A Node \<open>Buffer\<close> and a \<open>Uint8Array\<close> are lists of 8-bit words.
  \<open>Buffer.concat\<close> joins a list of buffers; \<open>buf.subarray(start, end)\<close> clamps both
  indices to the length of the buffer and never throws; \<open>buf.subarray(start)\<close> runs to
  the end of the buffer.
\<close>

type_synonym byte = "8 word"
type_synonym bytes = "byte list"

definition Buffer_concat :: "bytes list \<Rightarrow> bytes" where
  "Buffer_concat bufs = concat bufs"

definition subarray :: "bytes \<Rightarrow> nat \<Rightarrow> nat \<Rightarrow> bytes" where
  "subarray buf start stop = take (stop - start) (drop start buf)"

definition subarray_from :: "bytes \<Rightarrow> nat \<Rightarrow> bytes" where
  "subarray_from buf start = drop start buf"

section \<open>Envelope framing\<close>

text \<open>
  \<^verbatim>\<open>upload.route.ts\<close> frames both envelopes as
  \<^verbatim>\<open>Buffer.concat([iv, authTag, encrypted])\<close> (lines 128 and 168);
  \<^verbatim>\<open>claim.route.ts\<close> takes them apart with
  \<^verbatim>\<open>subarray(0, 12)\<close>, \<^verbatim>\<open>subarray(12, 28)\<close> and \<^verbatim>\<open>subarray(28)\<close>
  (lines 100-102 and 126-128). Neither side checks a length. The two definitions are
  named after the comments there (\<open>Combine: iv + authTag + encryptedKey\<close>,
  \<open>Extract: iv (12) + authTag (16) + encryptedKey\<close>).
\<close>

definition combine :: "bytes \<Rightarrow> bytes \<Rightarrow> bytes \<Rightarrow> bytes" where
  "combine iv authTag encrypted = Buffer_concat [iv, authTag, encrypted]"

definition extractEnvelope :: "bytes \<Rightarrow> bytes \<times> bytes \<times> bytes" where
  "extractEnvelope combined =
     (subarray combined 0 12, subarray combined 12 28, subarray_from combined 28)"

section \<open>Strings\<close>

text \<open>
  A JavaScript string is modelled as an Isabelle \<open>string\<close>: a list of characters with
  codes 0 to 255. Every string the modelled functions build (hexadecimal and base64 text,
  the generated passphrase, the binary string of \<^verbatim>\<open>arrayToBase64\<close>) has only such
  code units. \<open>String.fromCharCode(b)\<close> of a byte and \<open>s.charCodeAt(i)\<close> stored into a
  \<open>Uint8Array\<close> are the two conversions between a byte and a character. A passphrase
  is a string of the same type.
\<close>

definition fromCharCode :: "byte \<Rightarrow> char" where
  "fromCharCode b = char_of (unat b)"

definition charCodeAt :: "char \<Rightarrow> byte" where
  "charCodeAt c = of_nat (of_char c)"

text \<open>\<open>s.startsWith(p)\<close> and \<open>s.includes(p)\<close>.\<close>

fun startsWith :: "string \<Rightarrow> string \<Rightarrow> bool" where
  "startsWith s [] = True"
| "startsWith [] (p # ps) = False"
| "startsWith (c # cs) (p # ps) = (c = p \<and> startsWith cs ps)"

fun includesStr :: "string \<Rightarrow> string \<Rightarrow> bool" where
  "includesStr [] p = (p = [])"
| "includesStr (c # cs) p = (startsWith (c # cs) p \<or> includesStr cs p)"

text \<open>
  \<open>Buffer.from(s, 'utf-8')\<close>: a code point below U+0080 is one byte, a code point from
  U+0080 to U+00FF is the two bytes \<open>110000xx 10xxxxxx\<close>.
\<close>

definition utf8_char :: "char \<Rightarrow> bytes" where
  "utf8_char c =
     (let k = of_char c :: nat
      in if k < 128 then [of_nat k] else [of_nat (192 + k div 64), of_nat (128 + k mod 64)])"

definition utf8 :: "string \<Rightarrow> bytes" where
  "utf8 s = concat (map utf8_char s)"

section \<open>Hexadecimal text\<close>

text \<open>
  \<open>bytesToHex\<close> of \<^verbatim>\<open>@noble/hashes/utils\<close>: two lower-case digits for each byte,
  high nibble first. \<open>hexToBytes\<close> is its inverse in the same module: it fails on a
  string of odd length and on a character that is not a hexadecimal digit.
\<close>

definition hex_digit :: "nat \<Rightarrow> char" where
  "hex_digit n = (if n < 10 then char_of (n + 48) else char_of (n + 87))"

definition hex_value :: "char \<Rightarrow> nat option" where
  "hex_value c =
     (let k = of_char c :: nat
      in if 48 \<le> k \<and> k \<le> 57 then Some (k - 48)
         else if 97 \<le> k \<and> k \<le> 102 then Some (k - 87)
         else if 65 \<le> k \<and> k \<le> 70 then Some (k - 55)
         else None)"

definition bytesToHex :: "bytes \<Rightarrow> string" where
  "bytesToHex bs = concat (map (\<lambda>b. [hex_digit (unat b div 16), hex_digit (unat b mod 16)]) bs)"

fun hexToBytes :: "string \<Rightarrow> bytes option" where
  "hexToBytes [] = Some []"
| "hexToBytes [c] = None"
| "hexToBytes (c # d # s) =
     (case (hex_value c, hex_value d, hexToBytes s) of
        (Some h, Some l, Some bs) \<Rightarrow> Some (of_nat (h * 16 + l) # bs)
      | _ \<Rightarrow> None)"

section \<open>Base64 text\<close>

text \<open>
  The base64 alphabet of RFC 4648, and the value of a character in it. Three bytes make
  four 6-bit values; one or two remaining bytes make two or three, followed by padding.
\<close>

definition b64_char :: "nat \<Rightarrow> char" where
  "b64_char n =
     (if n < 26 then char_of (n + 65)
      else if n < 52 then char_of (n + 71)
      else if n < 62 then char_of (n - 4)
      else if n = 62 then CHR ''+'' else CHR ''/'')"

definition b64_value :: "char \<Rightarrow> nat option" where
  "b64_value c =
     (let k = of_char c :: nat
      in if 65 \<le> k \<and> k \<le> 90 then Some (k - 65)
         else if 97 \<le> k \<and> k \<le> 122 then Some (k - 71)
         else if 48 \<le> k \<and> k \<le> 57 then Some (k + 4)
         else if k = 43 then Some 62
         else if k = 47 then Some 63
         else None)"

fun b64_sextets :: "bytes \<Rightarrow> nat list" where
  "b64_sextets (a # b # c # bs) =
     [unat a div 4, (unat a mod 4) * 16 + unat b div 16,
      (unat b mod 16) * 4 + unat c div 64, unat c mod 64] @ b64_sextets bs"
| "b64_sextets [a, b] =
     [unat a div 4, (unat a mod 4) * 16 + unat b div 16, (unat b mod 16) * 4]"
| "b64_sextets [a] = [unat a div 4, (unat a mod 4) * 16]"
| "b64_sextets [] = []"

definition b64_encode :: "bytes \<Rightarrow> string" where
  "b64_encode bs =
     map b64_char (b64_sextets bs) @ replicate ((3 - length bs mod 3) mod 3) (CHR ''='')"

fun b64_bytes :: "nat list \<Rightarrow> bytes" where
  "b64_bytes (p # q # r # s # vs) =
     [of_nat (p * 4 + q div 16), of_nat ((q mod 16) * 16 + r div 4),
      of_nat ((r mod 4) * 64 + s)] @ b64_bytes vs"
| "b64_bytes [p, q, r] = [of_nat (p * 4 + q div 16), of_nat ((q mod 16) * 16 + r div 4)]"
| "b64_bytes [p, q] = [of_nat (p * 4 + q div 16)]"
| "b64_bytes [p] = []"
| "b64_bytes [] = []"

text \<open>
  The browser's \<open>btoa\<close> encodes a binary string (it raises on a code unit above 255,
  which a \<open>string\<close> does not have). \<open>atob\<close> is the forgiving decoder of the HTML
  standard: it removes ASCII whitespace, removes one or two trailing \<open>=\<close> when the length
  is a multiple of four, and raises (\<open>None\<close>) when the remaining length is 1 modulo 4 or
  a character is outside the alphabet.
\<close>

definition btoa :: "string \<Rightarrow> string" where
  "btoa binary = b64_encode (map charCodeAt binary)"

definition ascii_whitespace :: "char \<Rightarrow> bool" where
  "ascii_whitespace c = (of_char c \<in> {9, 10, 12, 13, 32 :: nat})"

definition strip_padding :: "string \<Rightarrow> string" where
  "strip_padding d =
     (if length d mod 4 = 0 \<and> d \<noteq> [] \<and> last d = CHR ''=''
      then (if butlast d \<noteq> [] \<and> last (butlast d) = CHR ''=''
            then butlast (butlast d) else butlast d)
      else d)"

definition atob :: "string \<Rightarrow> string option" where
  "atob s =
     (let d = strip_padding (filter (\<lambda>c. \<not> ascii_whitespace c) s)
      in if length d mod 4 = 1 then None
         else (case those (map b64_value d) of
                 None \<Rightarrow> None
               | Some vs \<Rightarrow> Some (map fromCharCode (b64_bytes vs))))"

text \<open>
  Node's \<open>buf.toString('base64')\<close> is the same encoder. \<open>Buffer.from(s, 'base64')\<close>
  never throws: it reads the text up to the first \<open>=\<close>, also takes \<open>-\<close> and \<open>_\<close> for
  62 and 63, and skips every other character.
\<close>

definition toString_base64 :: "bytes \<Rightarrow> string" where
  "toString_base64 buf = b64_encode buf"

definition b64_value_node :: "char \<Rightarrow> nat option" where
  "b64_value_node c =
     (if c = CHR ''-'' then Some 62 else if c = CHR ''_'' then Some 63 else b64_value c)"

definition Buffer_from_base64 :: "string \<Rightarrow> bytes" where
  "Buffer_from_base64 s =
     b64_bytes (List.map_filter b64_value_node (takeWhile (\<lambda>c. c \<noteq> CHR ''='') s))"

section \<open>\<^verbatim>\<open>src/lib/encryption.ts\<close>: arrayToBase64 and base64ToArray\<close>

text \<open>
  \<^verbatim>\<open>arrayToBase64\<close> walks the array in chunks of \<open>0x8000\<close> bytes; for each chunk an
  inner loop appends \<open>String.fromCharCode(chunk[i])\<close> to \<open>chunkString\<close>, which is then
  appended to \<open>binary\<close>; the result is \<open>btoa(binary)\<close>. \<^verbatim>\<open>base64ToArray\<close> calls
  \<open>atob\<close> (which may raise) and stores each \<open>charCodeAt(i)\<close> into a \<open>Uint8Array\<close>.
\<close>

definition chunkSize :: nat where
  "chunkSize = 0x8000"

fun chunk_loop :: "bytes \<Rightarrow> string \<Rightarrow> string" where
  "chunk_loop [] chunkString = chunkString"
| "chunk_loop (b # chunk) chunkString = chunk_loop chunk (chunkString @ [fromCharCode b])"

function offset_loop :: "bytes \<Rightarrow> nat \<Rightarrow> string \<Rightarrow> string" where
  "offset_loop array offset binary =
     (if offset < length array
      then offset_loop array (offset + chunkSize)
             (binary @ chunk_loop (subarray array offset (offset + chunkSize)) [])
      else binary)"
  by pat_completeness auto
termination
  by (relation "measure (\<lambda>(array, offset, binary). length array - offset)")
     (auto simp: chunkSize_def)

declare offset_loop.simps [simp del]

definition arrayToBase64 :: "bytes \<Rightarrow> string" where
  "arrayToBase64 array = btoa (offset_loop array 0 [])"

definition base64ToArray :: "string \<Rightarrow> bytes option" where
  "base64ToArray base64 =
     (case atob base64 of
        None \<Rightarrow> None
      | Some binary \<Rightarrow> Some (map charCodeAt binary))"

section \<open>Randomness\<close>

text \<open>
  \<open>crypto.randomBytes(n)\<close> returns \<open>n\<close> fresh bytes. The entropy source is an
  infinite stream of bytes passed through the calls that draw from it: \<open>randomBytes n\<close>
  returns the next \<open>n\<close> bytes and the rest of the stream.
\<close>

type_synonym rng = "nat \<Rightarrow> byte"

definition randomBytes :: "nat \<Rightarrow> rng \<Rightarrow> bytes \<times> rng" where
  "randomBytes n g = (map g [0..<n], \<lambda>i. g (i + n))"

section \<open>\<^verbatim>\<open>upload.route.ts\<close>: generatePassphrase\<close>

text \<open>
  \<open>xs[i]\<close> on a JavaScript array or buffer is \<open>undefined\<close> out of range; \<open>index\<close>
  returns \<open>None\<close> there. \<open>ws.join(sep)\<close> puts the separator between the elements.
\<close>

definition index :: "'a list \<Rightarrow> nat \<Rightarrow> 'a option" where
  "index xs i = (if i < length xs then Some (xs ! i) else None)"

fun join :: "string \<Rightarrow> string list \<Rightarrow> string" where
  "join sep [] = []"
| "join sep [w] = w"
| "join sep (w # v # ws) = w @ sep @ join sep (v # ws)"

definition words :: "string list" where
  "words =
     [''quantum'', ''secure'', ''drop'', ''anonymous'', ''encrypted'', ''blockdag'',
      ''whistle'', ''blow'', ''safe'', ''data'', ''privacy'', ''freedom'',
      ''crypto'', ''shield'', ''guardian'', ''vault'', ''lock'', ''key'']"

text \<open>
  \<open>randomIndex = byte % words.length\<close> (line 59). The loop of lines 56-65 runs for
  \<open>i = 0, ..., 5\<close>; in each round it draws one byte and pushes \<open>words[randomIndex]\<close>
  unless the byte or the word is \<open>undefined\<close>, in which case the round pushes nothing.
\<close>

definition randomIndex :: "byte \<Rightarrow> nat" where
  "randomIndex byte = unat byte mod length words"

function passphrase_loop :: "nat \<Rightarrow> rng \<Rightarrow> string list \<Rightarrow> string list \<times> rng" where
  "passphrase_loop i g passphrase =
     (if i < 6
      then (case randomBytes 1 g of
              (buf, g') \<Rightarrow>
                (case index buf 0 of
                   None \<Rightarrow> passphrase_loop (i + 1) g' passphrase
                 | Some byte \<Rightarrow>
                     (case index words (randomIndex byte) of
                        None \<Rightarrow> passphrase_loop (i + 1) g' passphrase
                      | Some word \<Rightarrow> passphrase_loop (i + 1) g' (passphrase @ [word]))))
      else (passphrase, g))"
  by pat_completeness auto
termination
  by (relation "measure (\<lambda>(i, g, passphrase). 6 - i)") auto

declare passphrase_loop.simps [simp del]

definition generatePassphrase :: "rng \<Rightarrow> string \<times> rng" where
  "generatePassphrase g =
     (case passphrase_loop 0 g [] of (passphrase, g') \<Rightarrow> (join ''-'' passphrase, g'))"

text \<open>
  The byte values and how many of them select a given index of the word list: the
  distribution of one pick when the byte is uniform.
\<close>

definition byte_values :: "byte list" where
  "byte_values = map of_nat [0..<256]"

definition picks :: "nat \<Rightarrow> nat" where
  "picks k = length (filter (\<lambda>byte. randomIndex byte = k) byte_values)"

section \<open>Cryptographic primitives\<close>

text \<open>
  The two routes call library code: \<open>keccak_256\<close> of \<^verbatim>\<open>@noble/hashes\<close> and
  AES-256-GCM of Node's \<^verbatim>\<open>crypto\<close> module. They are parameters of the model.
  \<^item> \<open>aes_256_gcm_encrypt lib key iv data\<close> stands for
    \<^verbatim>\<open>createCipheriv('aes-256-gcm', key, iv)\<close>, the concatenation of
    \<^verbatim>\<open>cipher.update(data)\<close> and \<^verbatim>\<open>cipher.final()\<close>, and \<^verbatim>\<open>cipher.getAuthTag()\<close>:
    the ciphertext and the tag, or \<open>None\<close> when a call throws.
  \<^item> \<open>aes_256_gcm_decrypt lib key iv authTag encrypted\<close> stands for
    \<^verbatim>\<open>createDecipheriv('aes-256-gcm', key, iv)\<close>, \<^verbatim>\<open>setAuthTag(authTag)\<close> and the
    concatenation of \<^verbatim>\<open>decipher.update(encrypted)\<close> and \<^verbatim>\<open>decipher.final()\<close>:
    the plaintext, or \<open>None\<close> when a call throws, as \<^verbatim>\<open>final()\<close> does when the tag
    does not verify.
\<close>

record crypto =
  keccak_256 :: "bytes \<Rightarrow> bytes"
  aes_256_gcm_encrypt :: "bytes \<Rightarrow> bytes \<Rightarrow> bytes \<Rightarrow> (bytes \<times> bytes) option"
  aes_256_gcm_decrypt :: "bytes \<Rightarrow> bytes \<Rightarrow> bytes \<Rightarrow> bytes \<Rightarrow> bytes option"

text \<open>
  What the theorems assume of the library: the digest has 32 bytes; with a 32-byte key
  and a 12-byte nonce, encryption returns a 16-byte tag and decryption of its result
  returns the plaintext; and, for a given key, decryption rejects a genuine pair of tag
  and ciphertext in which one bit has been flipped. The last one holds of GCM for every
  key whose hash subkey is not zero: a flipped tag is not the tag of the ciphertext,
  and a one-bit change of the ciphertext changes the tag by a non-zero multiple of a
  power of the subkey.
\<close>

definition digest_32 :: "'a crypto_scheme \<Rightarrow> bool" where
  "digest_32 lib = (\<forall>m. length (keccak_256 lib m) = 32)"

definition gcm_correct :: "'a crypto_scheme \<Rightarrow> bool" where
  "gcm_correct lib =
     (\<forall>k n data. length k = 32 \<and> length n = 12 \<longrightarrow>
        (\<exists>encrypted tag. aes_256_gcm_encrypt lib k n data = Some (encrypted, tag)
           \<and> length tag = 16 \<and> aes_256_gcm_decrypt lib k n tag encrypted = Some data))"

definition flip_one_bit :: "nat \<Rightarrow> nat \<Rightarrow> bytes \<Rightarrow> bytes" where
  "flip_one_bit i j buf = buf[i := (buf ! i) XOR push_bit j 1]"

definition gcm_detects_flips :: "'a crypto_scheme \<Rightarrow> bytes \<Rightarrow> bool" where
  "gcm_detects_flips lib k =
     (\<forall>n data encrypted tag i j.
        aes_256_gcm_encrypt lib k n data = Some (encrypted, tag) \<and> length tag = 16
          \<and> i < length (tag @ encrypted) \<and> j < 8 \<longrightarrow>
        aes_256_gcm_decrypt lib k n (take 16 (flip_one_bit i j (tag @ encrypted)))
          (drop 16 (flip_one_bit i j (tag @ encrypted))) = None)"



section \<open>\<^verbatim>\<open>upload.route.ts\<close>: encryptFile, encryptSymmetricKey and the handler\<close>

text \<open>
  \<^verbatim>\<open>encryptFile\<close> draws a 32-byte key and a 12-byte nonce and returns the object
  \<open>{ encryptedData, iv, authTag, key }\<close>, here a record whose fields carry the prefix
  \<open>ef_\<close>.
\<close>

record enc_file =
  ef_encryptedData :: bytes
  ef_iv :: bytes
  ef_authTag :: bytes
  ef_key :: bytes

definition encryptFile :: "'a crypto_scheme \<Rightarrow> bytes \<Rightarrow> rng \<Rightarrow> (enc_file \<times> rng) option" where
  "encryptFile lib fileBuffer g =
     (case randomBytes 32 g of
        (k, g1) \<Rightarrow>
          (case randomBytes 12 g1 of
             (n, g2) \<Rightarrow>
               (case aes_256_gcm_encrypt lib k n fileBuffer of
                  None \<Rightarrow> None
                | Some (encrypted, tag) \<Rightarrow>
                    Some (\<lparr>ef_encryptedData = encrypted, ef_iv = n, ef_authTag = tag,
                           ef_key = k\<rparr>, g2))))"

text \<open>
  The key-encryption key is \<open>keccak_256(Buffer.from(passphrase, 'utf-8'))\<close> (upload
  lines 113-114, claim lines 105-106). The value sent to the ledger is
  \<open>bytesToHex(keccak_256(Buffer.from(passphrase, 'utf-8')))\<close> (upload lines 152-153,
  claim lines 178-179).
\<close>

definition kek :: "'a crypto_scheme \<Rightarrow> string \<Rightarrow> bytes" where
  "kek lib passphrase = keccak_256 lib (utf8 passphrase)"

definition passphraseHash :: "'a crypto_scheme \<Rightarrow> string \<Rightarrow> string" where
  "passphraseHash lib passphrase = bytesToHex (keccak_256 lib (utf8 passphrase))"

definition encryptSymmetricKey ::
  "'a crypto_scheme \<Rightarrow> bytes \<Rightarrow> string \<Rightarrow> rng \<Rightarrow> (string \<times> rng) option" where
  "encryptSymmetricKey lib symmetricKey passphrase g =
     (case randomBytes 12 g of
        (n, g') \<Rightarrow>
          (case aes_256_gcm_encrypt lib (kek lib passphrase) n symmetricKey of
             None \<Rightarrow> None
           | Some (encryptedKey, tag) \<Rightarrow>
               Some (toString_base64 (combine n tag encryptedKey), g')))"

text \<open>
  The cryptographic steps of the handler of \<open>POST /api/upload\<close> for a file buffer and a
  passphrase: the passphrase hash (step 1), \<^verbatim>\<open>encryptFile\<close> and the framing of the
  file envelope (step 2), \<^verbatim>\<open>encryptSymmetricKey\<close> (step 4). The handler runs them
  on the passphrase that \<^verbatim>\<open>generatePassphrase\<close> returns; it stores \<open>encryptedFile\<close>
  on IPFS and sends \<open>encryptedSymKey\<close> and \<open>passphraseHash\<close> to the ledger. An exception
  in \<^verbatim>\<open>encryptFile\<close> or \<^verbatim>\<open>encryptSymmetricKey\<close> ends the handler in its \<open>catch\<close>
  (\<open>UPLOAD_ERROR\<close>): \<open>None\<close>.
\<close>

record created =
  cr_encryptedFile :: bytes
  cr_encryptedSymKey :: string
  cr_passphraseHash :: string

definition createDrop ::
  "'a crypto_scheme \<Rightarrow> bytes \<Rightarrow> string \<Rightarrow> rng \<Rightarrow> (created \<times> rng) option" where
  "createDrop lib fileBuffer passphrase g =
     (case encryptFile lib fileBuffer g of
        None \<Rightarrow> None
      | Some (ef, g1) \<Rightarrow>
          (case encryptSymmetricKey lib (ef_key ef) passphrase g1 of
             None \<Rightarrow> None
           | Some (encryptedSymKey, g2) \<Rightarrow>
               Some (\<lparr>cr_encryptedFile =
                         combine (ef_iv ef) (ef_authTag ef) (ef_encryptedData ef),
                       cr_encryptedSymKey = encryptedSymKey,
                       cr_passphraseHash = passphraseHash lib passphrase\<rparr>, g2)))"

section \<open>\<^verbatim>\<open>claim.route.ts\<close>: decryptSymmetricKey and decryptFile\<close>

text \<open>
  Both functions slice the envelope and hand the three parts to the cipher; neither
  looks at a length. \<open>None\<close> is an exception thrown by the cipher.
\<close>

definition decryptSymmetricKey :: "'a crypto_scheme \<Rightarrow> string \<Rightarrow> string \<Rightarrow> bytes option" where
  "decryptSymmetricKey lib encryptedSymKey passphrase =
     (case extractEnvelope (Buffer_from_base64 encryptedSymKey) of
        (n, tag, encryptedKey) \<Rightarrow>
          aes_256_gcm_decrypt lib (kek lib passphrase) n tag encryptedKey)"

definition decryptFile :: "'a crypto_scheme \<Rightarrow> bytes \<Rightarrow> bytes \<Rightarrow> bytes option" where
  "decryptFile lib encryptedFile symmetricKey =
     (case extractEnvelope encryptedFile of
        (n, tag, encryptedData) \<Rightarrow>
          aes_256_gcm_decrypt lib symmetricKey n tag encryptedData)"

text \<open>Steps 5 and 6 of the claim handler (lines 251 and 255-256).\<close>

definition openDrop :: "'a crypto_scheme \<Rightarrow> bytes \<Rightarrow> string \<Rightarrow> string \<Rightarrow> bytes option" where
  "openDrop lib encryptedFile encryptedSymKey passphrase =
     (case decryptSymmetricKey lib encryptedSymKey passphrase of
        None \<Rightarrow> None
      | Some symmetricKey \<Rightarrow> decryptFile lib encryptedFile symmetricKey)"

section \<open>The ledger and the content store\<close>

text \<open>
  Modelled from the spec: the ledger contract (QuantumDropV3), whose source is not among
  the files; only its ABI and its callers are (\<^verbatim>\<open>BlockDAGService\<close>). Section 6 of
  the specification: a record holds the locator, the key envelope, the commitment, an
  active flag and a claim counter; \<open>claimRecord(dropId, commitment)\<close> fails with
  RecordNotFound, RecordInactive or CommitmentMismatch. The revert reasons are the
  strings that \<^verbatim>\<open>BlockDAGService.claimDrop\<close> looks for and that the repository's
  documentation quotes
  (\<^verbatim>\<open>require(drops[dropId].passphraseHash == passphraseHash, "Invalid passphrase")\<close>).
  A \<open>bytes32\<close> is kept as the \<open>0x\<close>-prefixed hexadecimal text that the service passes.
\<close>

record drop =
  drop_ipfsHash :: string
  drop_encryptedSymKey :: string
  drop_passphraseHash :: string
  drop_isActive :: bool
  drop_claimCount :: nat

type_synonym ledger = "string \<rightharpoonup> drop"

text \<open>
  Modelled from the spec: the contract's \<open>createDrop\<close> (source missing). It stores an
  active record with no claims under the identifier.
\<close>

definition contract_createDrop :: "ledger \<Rightarrow> string \<Rightarrow> string \<Rightarrow> string \<Rightarrow> string \<Rightarrow> ledger" where
  "contract_createDrop led dropId ipfsHash encryptedSymKey hash32 =
     led(dropId \<mapsto> \<lparr>drop_ipfsHash = ipfsHash, drop_encryptedSymKey = encryptedSymKey,
                      drop_passphraseHash = hash32, drop_isActive = True,
                      drop_claimCount = 0\<rparr>)"

text \<open>
  Modelled from the spec: the contract's \<open>getDrop\<close> (source missing). It reverts for an
  identifier that has no record.
\<close>

definition contract_getDrop :: "ledger \<Rightarrow> string \<Rightarrow> string + drop" where
  "contract_getDrop led dropId =
     (case led dropId of None \<Rightarrow> Inl ''Drop does not exist'' | Some d \<Rightarrow> Inr d)"

text \<open>
  Modelled from the spec: the contract's \<open>claimDrop\<close> (source missing). It reverts when
  the record is missing, inactive, or its commitment differs from the one presented;
  otherwise it counts the claim.
\<close>

definition contract_claimDrop :: "ledger \<Rightarrow> string \<Rightarrow> string \<Rightarrow> string + ledger" where
  "contract_claimDrop led dropId hash32 =
     (case led dropId of
        None \<Rightarrow> Inl ''Drop does not exist''
      | Some d \<Rightarrow>
          if \<not> drop_isActive d then Inl ''Drop not active''
          else if drop_passphraseHash d \<noteq> hash32 then Inl ''Invalid passphrase''
          else Inr (led(dropId \<mapsto> d\<lparr>drop_claimCount := drop_claimCount d + 1\<rparr>)))"

text \<open>
  \<^verbatim>\<open>BlockDAGService\<close> (in \<^verbatim>\<open>services/ipfs.service.ts\<close>). \<^verbatim>\<open>createDrop\<close> and
  \<^verbatim>\<open>claimDrop\<close> put \<open>0x\<close> in front of the hash unless it is there.
  \<^verbatim>\<open>claimDrop\<close> reads the drop, refuses an inactive one, calls the contract and
  maps the message of a failed call. The transaction hash is left out.
\<close>

definition bytes32 :: "string \<Rightarrow> string" where
  "bytes32 h = (if startsWith h ''0x'' then h else ''0x'' @ h)"

definition BlockDAGService_createDrop :: "ledger \<Rightarrow> string \<Rightarrow> string \<Rightarrow> string \<Rightarrow> string \<Rightarrow> ledger" where
  "BlockDAGService_createDrop led dropId ipfsHash encryptedSymKey hash =
     contract_createDrop led dropId ipfsHash encryptedSymKey (bytes32 hash)"

definition BlockDAGService_claimDrop ::
  "ledger \<Rightarrow> string \<Rightarrow> string \<Rightarrow> (string + string \<times> string) \<times> ledger" where
  "BlockDAGService_claimDrop led dropId hash =
     (case contract_getDrop led dropId of
        Inl e \<Rightarrow> (Inl ''Drop does not exist'', led)
      | Inr d \<Rightarrow>
          if \<not> drop_isActive d then (Inl ''Drop is not active'', led)
          else (case contract_claimDrop led dropId (bytes32 hash) of
                  Inr led' \<Rightarrow> (Inr (drop_ipfsHash d, drop_encryptedSymKey d), led')
                | Inl message \<Rightarrow>
                    if includesStr message ''Invalid passphrase''
                    then (Inl ''Invalid passphrase'', led)
                    else if includesStr message ''inactive''
                    then (Inl ''Drop is not active'', led)
                    else (Inl (''Claim transaction failed: '' @ message), led)))"

text \<open>
  \<^verbatim>\<open>IPFSService.fetchFile\<close> (lines 128-151). The gateway answers a locator with the
  stored bytes (\<open>Inr\<close>), or the request fails (\<open>Inl\<close>) with the message of the error
  thrown inside the \<open>try\<close> block: the one of \<open>fetch\<close> itself, or
  \<open>Failed to fetch: <status> <statusText>\<close> for a response that is not ok. The \<open>catch\<close>
  puts the function's own text in front of that message.
\<close>

type_synonym ipfs = "string \<Rightarrow> string + bytes"

definition fetchFile :: "ipfs \<Rightarrow> string \<Rightarrow> string + bytes" where
  "fetchFile store cid =
     (case store cid of
        Inl message \<Rightarrow> Inl (''Failed to fetch file from IPFS: '' @ message)
      | Inr data \<Rightarrow> Inr data)"

section \<open>\<^verbatim>\<open>claim.route.ts\<close>: the route POST /api/claim\<close>

text \<open>
  A reply is an error of the handler
  (\<open>reply.code(status).send({ success: false, error, code })\<close>), the decrypted file
  (status 200; as a download, or base64 in JSON with \<open>?format=json\<close>; the file name and
  MIME type that \<^verbatim>\<open>detectFileType\<close> derives from the decrypted bytes are left out),
  or the refusal of a body that fails the route's schema: status 400 with the code
  \<open>FST_ERR_VALIDATION\<close>, sent by the error handler of \<^verbatim>\<open>app.ts\<close> (lines 108-116) with
  the validator's message, which is left out; \<open>ValidationReply\<close> carries the name of the
  property that failed.
\<close>

datatype reply = ValidationReply string | ErrorReply nat string string | FileReply bytes

text \<open>
  The handler (lines 164-303). An exception anywhere in it is caught at lines 294-302
  and answered with \<open>CLAIM_ERROR\<close>.
\<close>

definition claimHandler ::
  "'a crypto_scheme \<Rightarrow> ledger \<Rightarrow> ipfs \<Rightarrow> string \<Rightarrow> string \<Rightarrow> reply \<times> ledger" where
  "claimHandler lib led store dropId passphrase =
     (case BlockDAGService_claimDrop led dropId (passphraseHash lib passphrase) of
        (Inl error, led') \<Rightarrow>
          (if includesStr error ''Invalid passphrase''
           then ErrorReply 401 ''Invalid passphrase'' ''INVALID_PASSPHRASE''
           else if includesStr error ''not exist''
           then ErrorReply 404 ''Drop not found'' ''DROP_NOT_FOUND''
           else if includesStr error ''not active''
           then ErrorReply 403 ''Drop has been deactivated by owner'' ''DROP_INACTIVE''
           else ErrorReply 500 error ''CLAIM_FAILED'', led')
      | (Inr (ipfsHash, encryptedSymKey), led') \<Rightarrow>
          (case fetchFile store ipfsHash of
             Inl e \<Rightarrow> ErrorReply 500 e ''IPFS_FETCH_FAILED''
           | Inr data \<Rightarrow>
               if encryptedSymKey = []
               then ErrorReply 500 ''Encrypted key not available from contract''
                      ''KEY_NOT_AVAILABLE''
               else (case decryptSymmetricKey lib encryptedSymKey passphrase of
                       None \<Rightarrow> ErrorReply 500 ''Internal server error'' ''CLAIM_ERROR''
                     | Some symmetricKey \<Rightarrow>
                         (case decryptFile lib data symmetricKey of
                            None \<Rightarrow> ErrorReply 500 ''Internal server error'' ''CLAIM_ERROR''
                          | Some decryptedFile \<Rightarrow> FileReply decryptedFile)), led'))"

text \<open>
  The route (lines 143-162). \<open>claimSchema\<close> requires of the body a \<open>dropId\<close> and a
  \<open>passphrase\<close> that are strings of \<open>minLength: 1\<close>; the framework checks the properties
  in this order before the handler runs, and the two \<open>preHandler\<close> functions only set
  headers and write a log entry.
\<close>

definition claimRoute ::
  "'a crypto_scheme \<Rightarrow> ledger \<Rightarrow> ipfs \<Rightarrow> string \<Rightarrow> string \<Rightarrow> reply \<times> ledger" where
  "claimRoute lib led store dropId passphrase =
     (if length dropId < 1 then (ValidationReply ''dropId'', led)
      else if length passphrase < 1 then (ValidationReply ''passphrase'', led)
      else claimHandler lib led store dropId passphrase)"

section \<open>Sample primitives\<close>

text \<open>
  An instance of the interface of the primitives, to run the model on concrete inputs
  and to show that the assumptions above can be met. It is not cryptography: the digest
  is the message cut or padded to 32 bytes, the cipher XORs every byte with the XOR of
  the key's bytes, and the tag repeats the XOR of all bytes of key, nonce and
  ciphertext. Like Node's cipher it refuses a key that is not 32 bytes long.
\<close>

definition xor_all :: "bytes \<Rightarrow> byte" where
  "xor_all bs = foldr (XOR) bs 0"

definition sample_keccak :: "bytes \<Rightarrow> bytes" where
  "sample_keccak m = take 32 (m @ replicate 32 0)"

definition sample_tag :: "bytes \<Rightarrow> bytes \<Rightarrow> bytes \<Rightarrow> bytes" where
  "sample_tag k n encrypted = replicate 16 (xor_all (k @ n @ encrypted))"

definition sample_encrypt :: "bytes \<Rightarrow> bytes \<Rightarrow> bytes \<Rightarrow> (bytes \<times> bytes) option" where
  "sample_encrypt k n data =
     (if length k = 32 \<and> length n = 12
      then (let encrypted = map (\<lambda>b. b XOR xor_all k) data
            in Some (encrypted, sample_tag k n encrypted))
      else None)"

definition sample_decrypt :: "bytes \<Rightarrow> bytes \<Rightarrow> bytes \<Rightarrow> bytes \<Rightarrow> bytes option" where
  "sample_decrypt k n tag encrypted =
     (if length k = 32 \<and> length n = 12 \<and> tag = sample_tag k n encrypted
      then Some (map (\<lambda>b. b XOR xor_all k) encrypted)
      else None)"

definition sample_lib :: crypto where
  "sample_lib =
     \<lparr>keccak_256 = sample_keccak, aes_256_gcm_encrypt = sample_encrypt,
      aes_256_gcm_decrypt = sample_decrypt\<rparr>"

section \<open>A sample drop\<close>

text \<open>
  The scenario of the specification on the sample primitives: the plaintext is the bytes
  of \<open>hello world\<close>, the passphrase is
  \<open>quantum-secure-drop-anonymous-encrypted-blockdag\<close>, and \<open>wrong-guess\<close> is the wrong
  one. \<open>sample_created\<close> is what \<open>createDrop\<close> returns for them on \<open>sample_rng\<close>
  (lemma \<open>sample_created_eq\<close>); the ledger holds the drop under the identifier
  \<open>ab12cd34\<close> and the content store holds the file envelope under \<open>QmSample\<close>.
\<close>

definition sample_rng :: rng where
  "sample_rng i = of_nat (i * i + 7 * i + 3)"

definition hello_world :: bytes where
  "hello_world = [104, 101, 108, 108, 111, 32, 119, 111, 114, 108, 100]"

definition sample_passphrase :: string where
  "sample_passphrase = ''quantum-secure-drop-anonymous-encrypted-blockdag''"

text \<open>
  The values drawn from \<open>sample_rng\<close>: the file key (32 bytes), the nonce of the file
  envelope and the nonce of the key envelope (12 bytes each); and the sample digest of
  the passphrase, which is the key-encryption key.
\<close>

definition sample_key :: bytes where
  "sample_key =
     [3, 11, 21, 33, 47, 63, 81, 101, 123, 147, 173, 201, 231, 7, 41, 77, 115,
      155, 197, 241, 31, 79, 129, 181, 235, 35, 93, 153, 215, 23, 89, 157]"

definition sample_iv :: bytes where
  "sample_iv = [227, 43, 117, 193, 15, 95, 177, 5, 91, 179, 13, 105]"

definition sample_iv2 :: bytes where
  "sample_iv2 = [199, 39, 137, 237, 83, 187, 37, 145, 255, 111, 225, 85]"

definition sample_kek :: bytes where
  "sample_kek =
     [113, 117, 97, 110, 116, 117, 109, 45, 115, 101, 99, 117, 114, 101, 45,
      100, 114, 111, 112, 45, 97, 110, 111, 110, 121, 109, 111, 117, 115, 45,
      101, 110]"

definition sample_created :: created where
  "sample_created =
     \<lparr>cr_encryptedFile =
        sample_iv @ replicate 16 52
          @ [200, 197, 204, 204, 207, 128, 215, 207, 210, 204, 196],
      cr_encryptedSymKey =
        ''xyeJ7VO7JZH/b+FVXV1dXV1dXV1dXV1dXV1dXQIKFCAuPlBkepKsyOYGKExymsTwHk6AtOoiXJjWFlic'',
      cr_passphraseHash =
        ''7175616e74756d2d7365637572652d64726f702d616e6f6e796d6f75732d656e''\<rparr>"

definition sample_ledger :: ledger where
  "sample_ledger =
     BlockDAGService_createDrop Map.empty ''ab12cd34'' ''QmSample''
       (cr_encryptedSymKey sample_created) (cr_passphraseHash sample_created)"

definition sample_drop :: drop where
  "sample_drop =
     \<lparr>drop_ipfsHash = ''QmSample'', drop_encryptedSymKey = cr_encryptedSymKey sample_created,
      drop_passphraseHash = ''0x'' @ cr_passphraseHash sample_created, drop_isActive = True,
      drop_claimCount = 0\<rparr>"

definition sample_store :: ipfs where
  "sample_store cid =
     (if cid = ''QmSample'' then Inr (cr_encryptedFile sample_created)
      else Inl ''Failed to fetch: 404 Not Found'')"

text \<open>
  The same ledger with bit 0 of the last byte of the key envelope flipped (the last
  character of its base64 text is \<open>d\<close> for \<open>c\<close>), and the store with bit 0 of byte 30
  of the file envelope flipped (204 becomes 205 in the ciphertext). \<open>sample_drop\<close> and
  \<open>tampered_drop\<close> are the records that the two ledgers hold.
\<close>

definition tampered_ledger :: ledger where
  "tampered_ledger =
     BlockDAGService_createDrop Map.empty ''ab12cd34'' ''QmSample''
       ''xyeJ7VO7JZH/b+FVXV1dXV1dXV1dXV1dXV1dXQIKFCAuPlBkepKsyOYGKExymsTwHk6AtOoiXJjWFlid''
       (cr_passphraseHash sample_created)"

definition tampered_drop :: drop where
  "tampered_drop =
     sample_drop\<lparr>drop_encryptedSymKey :=
       ''xyeJ7VO7JZH/b+FVXV1dXV1dXV1dXV1dXV1dXQIKFCAuPlBkepKsyOYGKExymsTwHk6AtOoiXJjWFlid''\<rparr>"

definition tampered_store :: ipfs where
  "tampered_store cid =
     (if cid = ''QmSample''
      then Inr (sample_iv @ replicate 16 52
                  @ [200, 197, 205, 204, 207, 128, 215, 207, 210, 204, 196])
      else Inl ''Failed to fetch: 404 Not Found'')"

section \<open>Framing theorems\<close>

text \<open>
  C7. Framing is the concatenation nonce(12) || authTag(16) || ciphertext, the ciphertext
  lies at bytes [28:end), and taking a framed buffer apart gives back the nonce, the tag
  and the ciphertext, for a ciphertext of any length.
\<close>

theorem C7_envelope_framing:
  assumes "length iv = 12" and "length authTag = 16"
  shows "combine iv authTag encrypted = iv @ authTag @ encrypted
       \<and> take 12 (combine iv authTag encrypted) = iv
       \<and> take 16 (drop 12 (combine iv authTag encrypted)) = authTag
       \<and> drop 28 (combine iv authTag encrypted) = encrypted
       \<and> extractEnvelope (combine iv authTag encrypted) = (iv, authTag, encrypted)"
  using assms
  by (simp add: combine_def extractEnvelope_def Buffer_concat_def subarray_def subarray_from_def)

theorem C7_envelope_framing_witness:
  "combine (replicate 12 (1::byte)) (replicate 16 2) [7, 8, 9]
     = replicate 12 1 @ replicate 16 2 @ [7, 8, 9]
 \<and> take 12 (combine (replicate 12 (1::byte)) (replicate 16 2) [7, 8, 9]) = replicate 12 1
 \<and> take 16 (drop 12 (combine (replicate 12 (1::byte)) (replicate 16 2) [7, 8, 9]))
     = replicate 16 2
 \<and> drop 28 (combine (replicate 12 (1::byte)) (replicate 16 2) [7, 8, 9]) = [7, 8, 9]
 \<and> extractEnvelope (combine (replicate 12 (1::byte)) (replicate 16 2) [7, 8, 9])
     = (replicate 12 1, replicate 16 2, [7, 8, 9])"
proof -
  have n: "length (replicate 12 (1::byte)) = 12" by simp
  have t: "length (replicate 16 (2::byte)) = 16" by simp
  show ?thesis by (rule C7_envelope_framing [OF n t])
qed

section \<open>Characters and base64\<close>

lemma charCodeAt_fromCharCode: "charCodeAt (fromCharCode b) = b"
  using unsigned_less [of b, where 'a = nat] by (simp add: charCodeAt_def fromCharCode_def)

lemma map_charCodeAt_fromCharCode [simp]: "map (charCodeAt \<circ> fromCharCode) bs = bs"
  by (induction bs) (simp_all add: charCodeAt_fromCharCode)

lemma unat_byte: "unat (b::byte) < 256"
  using unsigned_less [of b, where 'a = nat] by simp

lemma b64_value_char: "n < 64 \<Longrightarrow> b64_value (b64_char n) = Some n"
  by (auto simp: b64_value_def b64_char_def Let_def)

lemma b64_char_not_pad: "n < 64 \<Longrightarrow> b64_char n \<noteq> CHR ''=''"
  using b64_value_char [of n] by (auto simp: b64_value_def)

lemma b64_char_not_space: "n < 64 \<Longrightarrow> \<not> ascii_whitespace (b64_char n)"
  using b64_value_char [of n] by (auto simp: b64_value_def ascii_whitespace_def Let_def split: if_splits)

lemma b64_sextets_bound: "v \<in> set (b64_sextets bs) \<Longrightarrow> v < 64"
proof (induction bs arbitrary: v rule: b64_sextets.induct)
  case (1 a b c bs)
  have "unat a < 256" "unat b < 256" "unat c < 256" by (rule unat_byte)+
  with 1 show ?case by auto
next
  case (2 a b)
  have "unat a < 256" "unat b < 256" by (rule unat_byte)+
  with 2 show ?case by auto
next
  case (3 a)
  have "unat a < 256" by (rule unat_byte)
  with 3 show ?case by auto
qed simp


lemma b64_triple:
  fixes a b c :: nat
  assumes "b < 256" "c < 256"
  shows "a div 4 * 4 + (a mod 4 * 16 + b div 16) div 16 = a"
    and "(a mod 4 * 16 + b div 16) mod 16 * 16 + (b mod 16 * 4 + c div 64) div 4 = b"
    and "(b mod 16 * 4 + c div 64) mod 4 * 64 + c mod 64 = c"
proof -
  have b: "b div 16 < 16" and c: "c div 64 < 4"
    using assms by (simp_all add: less_mult_imp_div_less)
  have "(a mod 4 * 16 + b div 16) div 16 = a mod 4" using b by simp
  then show "a div 4 * 4 + (a mod 4 * 16 + b div 16) div 16 = a" by simp
  have "(a mod 4 * 16 + b div 16) mod 16 = b div 16" using b by simp
  moreover have "(b mod 16 * 4 + c div 64) div 4 = b mod 16" using c by simp
  ultimately show "(a mod 4 * 16 + b div 16) mod 16 * 16 + (b mod 16 * 4 + c div 64) div 4 = b"
    by simp
  have "(b mod 16 * 4 + c div 64) mod 4 = c div 64" using c by simp
  then show "(b mod 16 * 4 + c div 64) mod 4 * 64 + c mod 64 = c" by simp
qed

lemma b64_bytes_sextets: "b64_bytes (b64_sextets bs) = bs"
proof (induction bs rule: b64_sextets.induct)
  case (1 a b c bs)
  have "unat a < 256" "unat b < 256" "unat c < 256" by (rule unat_byte)+
  then show ?case using 1 by (simp add: b64_triple)
next
  case (2 a b)
  have "unat a < 256" "unat b < 256" by (rule unat_byte)+
  then show ?case using b64_triple(1,2) [of "unat b" 0 "unat a"] by simp
next
  case (3 a)
  show ?case using b64_triple(1) [of 0 0 "unat a"] by simp
qed simp

lemma length_b64_sextets:
  "length (b64_sextets bs) = 4 * (length bs div 3) + (if length bs mod 3 = 0 then 0 else length bs mod 3 + 1)"
proof (induction bs rule: b64_sextets.induct)
  case (1 a b c bs)
  have "(3 + length bs) div 3 = Suc (length bs div 3)" "(3 + length bs) mod 3 = length bs mod 3"
    by presburger+
  with 1 show ?case by simp
qed simp_all

lemma those_b64_value: "\<forall>v \<in> set vs. v < 64 \<Longrightarrow> those (map b64_value (map b64_char vs)) = Some vs"
  by (induction vs) (simp_all add: b64_value_char)


lemma length_b64_sextets_mod4:
  "length (b64_sextets bs) mod 4 = (if length bs mod 3 = 0 then 0 else length bs mod 3 + 1)"
proof -
  let ?r = "if length bs mod 3 = 0 then 0 else length bs mod 3 + 1"
  have "length bs mod 3 < 3" by simp
  then have r: "?r < 4" by simp
  have "length (b64_sextets bs) mod 4 = (4 * (length bs div 3) + ?r) mod 4"
    by (simp only: length_b64_sextets)
  also have "\<dots> = ?r mod 4" by (rule mod_mult_self4)
  also have "\<dots> = ?r" using r by (rule mod_less)
  finally show ?thesis .
qed

lemma length_b64_encode_mod: "(length (b64_sextets bs) + (3 - length bs mod 3) mod 3) mod 4 = 0"
proof -
  have "length bs mod 3 < 3" by simp
  then consider "length bs mod 3 = 0" | "length bs mod 3 = 1" | "length bs mod 3 = 2"
    by linarith
  then have "(length (b64_sextets bs) mod 4 + (3 - length bs mod 3) mod 3) mod 4 = 0"
    by cases (simp_all add: length_b64_sextets_mod4)
  then show ?thesis by (simp add: mod_add_left_eq)
qed

lemma length_b64_sextets_mod: "length (b64_sextets bs) mod 4 \<noteq> 1"
proof -
  have "length bs mod 3 < 3" by simp
  then consider "length bs mod 3 = 0" | "length bs mod 3 = 1" | "length bs mod 3 = 2"
    by linarith
  then show ?thesis
    by cases (simp_all add: length_b64_sextets_mod4)
qed

lemma strip_padding_encode:
  assumes "\<forall>v \<in> set vs. v < 64" and "p \<le> 2" and "(length vs + p) mod 4 = 0"
  shows "strip_padding (map b64_char vs @ replicate p (CHR ''='')) = map b64_char vs"
proof -
  have nopad: "c \<noteq> CHR ''=''" if "c \<in> set (map b64_char vs)" for c
    using that assms(1) b64_char_not_pad by auto
  consider "p = 0" | "p = 1" | "p = 2" using assms(2) by linarith
  then show ?thesis
  proof cases
    case 1
    show ?thesis
    proof (cases "vs = []")
      case True
      then show ?thesis using 1 by (simp add: strip_padding_def)
    next
      case False
      then have "last (map b64_char vs) \<in> set (map b64_char vs)"
        by (intro last_in_set) simp
      then have "last (map b64_char vs) \<noteq> CHR ''=''" by (rule nopad)
      then show ?thesis using 1 by (simp add: strip_padding_def)
    qed
  next
    case 2
    have "butlast (map b64_char vs @ [CHR ''='']) = map b64_char vs" by simp
    moreover have "map b64_char vs \<noteq> [] \<Longrightarrow> last (map b64_char vs) \<noteq> CHR ''=''"
      using nopad last_in_set by blast
    ultimately show ?thesis using 2 assms(3) by (auto simp: strip_padding_def)
  next
    case 3
    have e: "map b64_char vs @ replicate p (CHR ''='') = (map b64_char vs @ [CHR ''='']) @ [CHR ''='']"
      using 3 by (simp add: numeral_2_eq_2)
    have l: "length ((map b64_char vs @ [CHR ''='']) @ [CHR ''='']) mod 4 = 0"
      using 3 assms(3) by simp
    show ?thesis
      unfolding e strip_padding_def using l by (simp only: butlast_snoc last_snoc) simp
  qed
qed

lemma filter_whitespace_encode:
  "filter (\<lambda>c. \<not> ascii_whitespace c) (b64_encode bs) = b64_encode bs"
proof -
  have "\<not> ascii_whitespace c" if "c \<in> set (b64_encode bs)" for c
    using that b64_sextets_bound b64_char_not_space
    by (auto simp: b64_encode_def ascii_whitespace_def split: if_splits)
  then show ?thesis by (simp add: filter_id_conv)
qed

lemma atob_b64_encode: "atob (b64_encode bs) = Some (map fromCharCode bs)"
proof -
  let ?vs = "b64_sextets bs" and ?p = "(3 - length bs mod 3) mod 3"
  have bound: "\<forall>v \<in> set ?vs. v < 64" using b64_sextets_bound by blast
  have "?p < 3" by (rule mod_less_divisor) simp
  then have p: "?p \<le> 2" by simp
  have strip: "strip_padding (b64_encode bs) = map b64_char ?vs"
    unfolding b64_encode_def
    by (rule strip_padding_encode [OF bound p length_b64_encode_mod])
  have len: "length (map b64_char ?vs) mod 4 \<noteq> 1"
    using length_b64_sextets_mod [of bs] by simp
  have "atob (b64_encode bs) =
      (case those (map b64_value (map b64_char ?vs)) of
         None \<Rightarrow> None
       | Some vs \<Rightarrow> Some (map fromCharCode (b64_bytes vs)))"
    unfolding atob_def filter_whitespace_encode strip Let_def using len by simp
  also have "\<dots> = Some (map fromCharCode bs)"
    unfolding those_b64_value [OF bound] by (simp add: b64_bytes_sextets)
  finally show ?thesis .
qed

lemma chunk_loop_eq: "chunk_loop chunk chunkString = chunkString @ map fromCharCode chunk"
  by (induction chunk arbitrary: chunkString) simp_all

lemma offset_loop_eq:
  "offset_loop array offset binary = binary @ map fromCharCode (drop offset array)"
proof (induction array offset binary rule: offset_loop.induct)
  case (1 array offset binary)
  show ?case
  proof (cases "offset < length array")
    case True
    have "drop (offset + chunkSize) array = drop chunkSize (drop offset array)"
      by (simp add: add.commute)
    then have "take chunkSize (drop offset array) @ drop (offset + chunkSize) array = drop offset array"
      by (simp only: append_take_drop_id)
    then have "map fromCharCode (take chunkSize (drop offset array))
        @ map fromCharCode (drop (offset + chunkSize) array) = map fromCharCode (drop offset array)"
      by (simp only: map_append [symmetric])
    with True 1 show ?thesis
      by (subst offset_loop.simps) (simp add: chunk_loop_eq subarray_def)
  next
    case False
    then show ?thesis by (subst offset_loop.simps) simp
  qed
qed

lemma arrayToBase64_eq: "arrayToBase64 array = b64_encode array"
  by (simp add: arrayToBase64_def btoa_def offset_loop_eq)

text \<open>
  C10. For every byte array \<open>a\<close>, the empty one and those longer than the chunk of
  \<open>0x8000\<close> bytes included, \<open>base64ToArray (arrayToBase64 a)\<close> returns \<open>a\<close>:
  \<open>atob\<close> does not raise on the encoder's output and the bytes are the same.
\<close>

theorem C10_base64_roundtrip: "base64ToArray (arrayToBase64 a) = Some a"
  by (simp add: base64ToArray_def arrayToBase64_eq atob_b64_encode)

section \<open>The passphrase generator\<close>

lemma length_words: "length words = 18" by (simp add: words_def)

lemma randomIndex_less: "randomIndex byte < length words"
  by (simp add: randomIndex_def length_words)

lemma passphrase_loop_step:
  "i < 6 \<Longrightarrow> passphrase_loop i g passphrase =
     passphrase_loop (Suc i) (\<lambda>k. g (Suc k)) (passphrase @ [words ! randomIndex (g 0)])"
  by (subst passphrase_loop.simps) (simp add: randomBytes_def index_def randomIndex_less)

lemma passphrase_loop_eq:
  "i \<le> 6 \<Longrightarrow> passphrase_loop i g acc =
     (acc @ map (\<lambda>k. words ! randomIndex (g k)) [0..<6 - i], \<lambda>k. g (k + (6 - i)))"
proof (induction "6 - i" arbitrary: i g acc)
  case 0
  then have "i = 6" by simp
  then show ?case by (subst passphrase_loop.simps) simp
next
  case (Suc n)
  have i: "i < 6" and n: "n = 6 - Suc i" and le: "Suc i \<le> 6" and m: "6 - i = Suc n"
    using Suc.hyps(2) by linarith+
  have up: "[0..<Suc n] = 0 # map Suc [0..<n]"
    by (simp only: upt_conv_Cons [of 0 "Suc n"] map_Suc_upt zero_less_Suc)
  show ?case
    unfolding passphrase_loop_step [OF i] Suc.hyps(1) [OF n le] m up
    by (simp add: n o_def)
qed

lemma generatePassphrase_eq:
  "generatePassphrase g =
     (join ''-'' (map (\<lambda>k. words ! randomIndex (g k)) [0..<6]), \<lambda>k. g (k + 6))"
  using passphrase_loop_eq [of 0 g "[]"] by (simp add: generatePassphrase_def)


lemma set_words_picks: "set (map (\<lambda>k. words ! randomIndex (g k)) [0..<6]) \<subseteq> set words"
  using randomIndex_less by auto

text \<open>
  C9. Every generated passphrase is six words of the fixed list of 18, joined by \<open>-\<close>:
  the text is a word, a hyphen, a word, and so on up to the sixth word. The 18 words of
  the list are distinct, and none is empty or has a hyphen in it, so the text shows its
  six words. The generator
  takes no word count and no word list, and the set of passphrases it can return, over
  all entropy streams, has at most \<open>18 ^ 6\<close> members.
\<close>

theorem C9_generated_passphrases:
  "(\<exists>a b c d e f.
       a \<in> set words \<and> b \<in> set words \<and> c \<in> set words
     \<and> d \<in> set words \<and> e \<in> set words \<and> f \<in> set words
     \<and> fst (generatePassphrase g)
         = a @ ''-'' @ b @ ''-'' @ c @ ''-'' @ d @ ''-'' @ e @ ''-'' @ f)
   \<and> length words = 18 \<and> distinct words
   \<and> list_all (\<lambda>w. w \<noteq> [] \<and> CHR ''-'' \<notin> set w) words
   \<and> finite (range (\<lambda>g. fst (generatePassphrase g)))
   \<and> card (range (\<lambda>g. fst (generatePassphrase g))) \<le> 18 ^ 6"
proof -
  let ?L = "{ws. set ws \<subseteq> set words \<and> length ws = 6}"
  define w where "w k = words ! randomIndex (g k)" for k
  have up: "[0..<6] = [0, 1, 2, 3, 4, 5]" by (simp add: upt_rec)
  have mem: "w k \<in> set words" for k
    unfolding w_def using randomIndex_less by simp
  have eq6: "fst (generatePassphrase g)
      = w 0 @ ''-'' @ w 1 @ ''-'' @ w 2 @ ''-'' @ w 3 @ ''-'' @ w 4 @ ''-'' @ w 5"
    unfolding generatePassphrase_eq up w_def by simp
  have ex: "\<exists>ws. length ws = 6 \<and> set ws \<subseteq> set words \<and> fst (generatePassphrase g) = join ''-'' ws"
    for g
    unfolding generatePassphrase_eq
    by (rule exI [of _ "map (\<lambda>k. words ! randomIndex (g k)) [0..<6]"])
       (simp add: set_words_picks del: set_map upt_Suc)
  have sub: "range (\<lambda>g. fst (generatePassphrase g)) \<subseteq> join ''-'' ` ?L"
    using ex by blast
  have fin: "finite ?L" by (rule finite_lists_length_eq) simp
  have "card ?L = card (set words) ^ 6" by (rule card_lists_length_eq) simp
  also have "\<dots> \<le> 18 ^ 6"
    using card_length [of words] by (intro power_mono) (simp_all add: length_words)
  finally have cardL: "card ?L \<le> 18 ^ 6" .
  have "card (range (\<lambda>g. fst (generatePassphrase g))) \<le> card (join ''-'' ` ?L)"
    using sub fin by (intro card_mono) simp_all
  also have "\<dots> \<le> card ?L" using fin by (rule card_image_le)
  finally have card: "card (range (\<lambda>g. fst (generatePassphrase g))) \<le> 18 ^ 6"
    using cardL by simp
  have finr: "finite (range (\<lambda>g. fst (generatePassphrase g)))"
    using sub fin by (meson finite_imageI finite_subset)
  have six: "\<exists>a b c d e f.
       a \<in> set words \<and> b \<in> set words \<and> c \<in> set words
     \<and> d \<in> set words \<and> e \<in> set words \<and> f \<in> set words
     \<and> fst (generatePassphrase g)
         = a @ ''-'' @ b @ ''-'' @ c @ ''-'' @ d @ ''-'' @ e @ ''-'' @ f"
    using mem eq6 by blast
  have plain: "list_all (\<lambda>w. w \<noteq> [] \<and> CHR ''-'' \<notin> set w) words"
    by (simp add: words_def)
  have dist: "distinct words" by (simp add: words_def)
  show ?thesis using six length_words dist plain finr card by blast
qed

lemma generatePassphrase_sample:
  "fst (generatePassphrase (\<lambda>i. of_nat i)) = sample_passphrase"
  by code_simp

theorem C9_generated_passphrases_witness:
  "\<exists>a b c d e f.
       a \<in> set words \<and> b \<in> set words \<and> c \<in> set words
     \<and> d \<in> set words \<and> e \<in> set words \<and> f \<in> set words
     \<and> ''quantum-secure-drop-anonymous-encrypted-blockdag''
         = a @ ''-'' @ b @ ''-'' @ c @ ''-'' @ d @ ''-'' @ e @ ''-'' @ f"
  using C9_generated_passphrases [of "\<lambda>i. of_nat i"]
  unfolding generatePassphrase_sample sample_passphrase_def by blast

text \<open>
  C8. Each pick is \<open>byte % 18\<close> of one uniformly random byte. Of the 256 byte values,
  15 select each of the first four words and 14 each of the other fourteen, so the
  entries of the list are not equally likely. The lookup \<open>words[randomIndex]\<close> is always
  in range, so the round that would push nothing never happens (see
  \<open>generatePassphrase_eq\<close>): the generator has no failure at all.
\<close>

theorem C8_modulo_bias: "picks 0 = 15 \<and> picks 17 = 14 \<and> length byte_values = 256"
  by code_simp

lemma generatePassphrase_example:
  "fst (generatePassphrase (\<lambda>i. 252)) = ''quantum-quantum-quantum-quantum-quantum-quantum''"
  by code_simp

section \<open>Node's base64 codec\<close>

lemma b64_value_node_char: "n < 64 \<Longrightarrow> b64_value_node (b64_char n) = Some n"
  using b64_value_char [of n] by (auto simp: b64_value_node_def b64_value_def)

lemma map_filter_b64_value_node:
  "\<forall>v \<in> set vs. v < 64 \<Longrightarrow> List.map_filter b64_value_node (map b64_char vs) = vs"
  by (induction vs) (simp_all add: List.map_filter_simps b64_value_node_char)

lemma takeWhile_b64_encode:
  "takeWhile (\<lambda>c. c \<noteq> CHR ''='') (b64_encode bs) = map b64_char (b64_sextets bs)"
proof -
  have "\<forall>c \<in> set (map b64_char (b64_sextets bs)). c \<noteq> CHR ''=''"
    using b64_sextets_bound b64_char_not_pad by auto
  then show ?thesis
    unfolding b64_encode_def
    by (cases "(3 - length bs mod 3) mod 3") (simp_all add: takeWhile_tail takeWhile_eq_all_conv)
qed

lemma Buffer_from_base64_toString: "Buffer_from_base64 (toString_base64 buf) = buf"
  using b64_sextets_bound
  by (simp add: Buffer_from_base64_def toString_base64_def takeWhile_b64_encode
      map_filter_b64_value_node b64_bytes_sextets)

section \<open>Hexadecimal text and the passphrase hash\<close>

lemma hex_value_digit: "n < 16 \<Longrightarrow> hex_value (hex_digit n) = Some n"
  by (auto simp: hex_value_def hex_digit_def Let_def)

lemma hexToBytes_bytesToHex: "hexToBytes (bytesToHex bs) = Some bs"
proof (induction bs)
  case Nil
  show ?case by (simp add: bytesToHex_def)
next
  case (Cons b bs)
  have "unat b div 16 < 16" using unat_byte [of b] by (simp add: less_mult_imp_div_less)
  then have "hex_value (hex_digit (unat b div 16)) = Some (unat b div 16)"
    and "hex_value (hex_digit (unat b mod 16)) = Some (unat b mod 16)"
    by (simp_all add: hex_value_digit)
  with Cons show ?case by (simp add: bytesToHex_def)
qed

lemma bytesToHex_inj: "bytesToHex a = bytesToHex b \<Longrightarrow> a = b"
  by (metis hexToBytes_bytesToHex option.inject)

lemma hex_digit_not_x: "n < 16 \<Longrightarrow> hex_digit n \<noteq> CHR ''x''"
  using hex_value_digit [of n] by (auto simp: hex_value_def)

lemma bytesToHex_no_0x: "\<not> startsWith (bytesToHex bs) ''0x''"
proof (cases bs)
  case Nil
  then show ?thesis by (simp add: bytesToHex_def)
next
  case (Cons b bs')
  have "hex_digit (unat b mod 16) \<noteq> CHR ''x''" by (rule hex_digit_not_x) simp
  then show ?thesis using Cons by (simp add: bytesToHex_def)
qed

lemma bytes32_passphraseHash: "bytes32 (passphraseHash lib S) = ''0x'' @ passphraseHash lib S"
  by (simp add: bytes32_def passphraseHash_def bytesToHex_no_0x)

lemma passphraseHash_eq_iff:
  "passphraseHash lib S = passphraseHash lib S' \<longleftrightarrow> keccak_256 lib (utf8 S) = keccak_256 lib (utf8 S')"
  using bytesToHex_inj by (auto simp: passphraseHash_def)

section \<open>Creating and opening a drop\<close>

lemma length_randomBytes: "length (fst (randomBytes n g)) = n"
  by (simp add: randomBytes_def)

lemma extractEnvelope_combine:
  "length n = 12 \<Longrightarrow> length tag = 16 \<Longrightarrow> extractEnvelope (combine n tag encrypted) = (n, tag, encrypted)"
  by (simp add: combine_def extractEnvelope_def Buffer_concat_def subarray_def subarray_from_def)

lemma gcm_correctD:
  assumes "gcm_correct lib" "length k = 32" "length n = 12"
  obtains encrypted tag where "aes_256_gcm_encrypt lib k n data = Some (encrypted, tag)"
    and "length tag = 16" and "aes_256_gcm_decrypt lib k n tag encrypted = Some data"
  using assms unfolding gcm_correct_def by blast

lemma createDrop_ok:
  assumes "digest_32 lib" and "gcm_correct lib"
  obtains ef g1 n2 tag2 ek g2 where
    "encryptFile lib P g = Some (ef, g1)" "ef_key ef = fst (randomBytes 32 g)"
    "length (ef_iv ef) = 12" "length (ef_authTag ef) = 16"
    "aes_256_gcm_encrypt lib (ef_key ef) (ef_iv ef) P = Some (ef_encryptedData ef, ef_authTag ef)"
    "aes_256_gcm_decrypt lib (ef_key ef) (ef_iv ef) (ef_authTag ef) (ef_encryptedData ef) = Some P"
    "length n2 = 12" "length tag2 = 16"
    "aes_256_gcm_encrypt lib (kek lib S) n2 (ef_key ef) = Some (ek, tag2)"
    "aes_256_gcm_decrypt lib (kek lib S) n2 tag2 ek = Some (ef_key ef)"
    "createDrop lib P S g =
       Some (\<lparr>cr_encryptedFile = combine (ef_iv ef) (ef_authTag ef) (ef_encryptedData ef),
              cr_encryptedSymKey = toString_base64 (combine n2 tag2 ek),
              cr_passphraseHash = passphraseHash lib S\<rparr>, g2)"
proof -
  define k where "k = fst (randomBytes 32 g)"
  define g0 where "g0 = snd (randomBytes 32 g)"
  define n where "n = fst (randomBytes 12 g0)"
  define g1 where "g1 = snd (randomBytes 12 g0)"
  define n2 where "n2 = fst (randomBytes 12 g1)"
  define g2 where "g2 = snd (randomBytes 12 g1)"
  have lk: "length k = 32" and ln: "length n = 12" and ln2: "length n2 = 12"
    by (simp_all add: k_def n_def n2_def length_randomBytes)
  obtain encrypted tag where e: "aes_256_gcm_encrypt lib k n P = Some (encrypted, tag)"
    and lt: "length tag = 16" and d: "aes_256_gcm_decrypt lib k n tag encrypted = Some P"
    using gcm_correctD [OF assms(2) lk ln] by blast
  have lkek: "length (kek lib S) = 32" using assms(1) by (simp add: digest_32_def kek_def)
  obtain ek tag2 where e2: "aes_256_gcm_encrypt lib (kek lib S) n2 k = Some (ek, tag2)"
    and lt2: "length tag2 = 16" and d2: "aes_256_gcm_decrypt lib (kek lib S) n2 tag2 ek = Some k"
    using gcm_correctD [OF assms(2) lkek ln2] by blast
  let ?ef = "\<lparr>ef_encryptedData = encrypted, ef_iv = n, ef_authTag = tag, ef_key = k\<rparr>"
  have ef: "encryptFile lib P g = Some (?ef, g1)"
    using e by (simp add: encryptFile_def k_def g0_def n_def g1_def case_prod_unfold)
  have esk: "encryptSymmetricKey lib k S g1 = Some (toString_base64 (combine n2 tag2 ek), g2)"
    using e2 by (simp add: encryptSymmetricKey_def n2_def g2_def case_prod_unfold)
  have cr: "createDrop lib P S g =
       Some (\<lparr>cr_encryptedFile = combine n tag encrypted,
              cr_encryptedSymKey = toString_base64 (combine n2 tag2 ek),
              cr_passphraseHash = passphraseHash lib S\<rparr>, g2)"
    by (simp add: createDrop_def ef esk)
  show thesis
    by (rule that [of ?ef g1 n2 tag2 ek g2])
       (simp_all add: ef ln lt e d ln2 lt2 e2 d2 cr, simp add: k_def)
qed

lemma toString_base64_nonempty: "buf \<noteq> [] \<Longrightarrow> toString_base64 buf \<noteq> []"
proof
  assume "buf \<noteq> []" and "toString_base64 buf = []"
  then have "Buffer_from_base64 (toString_base64 buf) = Buffer_from_base64 []" by simp
  moreover have "Buffer_from_base64 [] = []"
    by (simp add: Buffer_from_base64_def List.map_filter_simps)
  ultimately have "buf = []" by (simp only: Buffer_from_base64_toString)
  then show False using \<open>buf \<noteq> []\<close> by simp
qed

lemma combine_nonempty: "length n = 12 \<Longrightarrow> combine n tag encrypted \<noteq> []"
  by (auto simp: combine_def Buffer_concat_def)

lemma decryptSymmetricKey_envelope:
  "length n = 12 \<Longrightarrow> length tag = 16 \<Longrightarrow>
   decryptSymmetricKey lib (toString_base64 (combine n tag encryptedKey)) S
     = aes_256_gcm_decrypt lib (kek lib S) n tag encryptedKey"
  by (simp add: decryptSymmetricKey_def Buffer_from_base64_toString extractEnvelope_combine)

lemma decryptFile_envelope:
  "length n = 12 \<Longrightarrow> length tag = 16 \<Longrightarrow>
   decryptFile lib (combine n tag encryptedData) symmetricKey
     = aes_256_gcm_decrypt lib symmetricKey n tag encryptedData"
  by (simp add: decryptFile_def extractEnvelope_combine)

text \<open>
  C1. For every plaintext buffer \<open>P\<close>, the empty one included, every passphrase \<open>S\<close>
  and every state of the entropy source, creating a drop succeeds, and opening it with
  \<open>S\<close> returns \<open>P\<close>: \<^verbatim>\<open>decryptSymmetricKey\<close> recovers the file key from the key
  envelope with the key derived from \<open>S\<close> by keccak-256, and \<^verbatim>\<open>decryptFile\<close> recovers
  \<open>P\<close> from the file envelope with that key.
\<close>

theorem C1_round_trip:
  assumes "digest_32 lib" and "gcm_correct lib"
  shows "\<exists>r g' ef g1.
           createDrop lib P S g = Some (r, g')
         \<and> encryptFile lib P g = Some (ef, g1)
         \<and> decryptSymmetricKey lib (cr_encryptedSymKey r) S = Some (ef_key ef)
         \<and> decryptFile lib (cr_encryptedFile r) (ef_key ef) = Some P
         \<and> openDrop lib (cr_encryptedFile r) (cr_encryptedSymKey r) S = Some P"
proof (rule createDrop_ok [OF assms, of P g S])
  fix ef g1 n2 tag2 ek g2
  assume ef: "encryptFile lib P g = Some (ef, g1)"
    and "ef_key ef = fst (randomBytes 32 g)"
    and l: "length (ef_iv ef) = 12" "length (ef_authTag ef) = 16"
    and "aes_256_gcm_encrypt lib (ef_key ef) (ef_iv ef) P = Some (ef_encryptedData ef, ef_authTag ef)"
    and d: "aes_256_gcm_decrypt lib (ef_key ef) (ef_iv ef) (ef_authTag ef) (ef_encryptedData ef) = Some P"
    and l2: "length n2 = 12" "length tag2 = 16"
    and "aes_256_gcm_encrypt lib (kek lib S) n2 (ef_key ef) = Some (ek, tag2)"
    and d2: "aes_256_gcm_decrypt lib (kek lib S) n2 tag2 ek = Some (ef_key ef)"
    and cr: "createDrop lib P S g =
       Some (\<lparr>cr_encryptedFile = combine (ef_iv ef) (ef_authTag ef) (ef_encryptedData ef),
              cr_encryptedSymKey = toString_base64 (combine n2 tag2 ek),
              cr_passphraseHash = passphraseHash lib S\<rparr>, g2)"
  have dk: "decryptSymmetricKey lib (toString_base64 (combine n2 tag2 ek)) S = Some (ef_key ef)"
    using d2 by (simp add: decryptSymmetricKey_envelope [OF l2])
  have df: "decryptFile lib (combine (ef_iv ef) (ef_authTag ef) (ef_encryptedData ef)) (ef_key ef)
      = Some P"
    using d by (simp add: decryptFile_envelope [OF l])
  show ?thesis
    using ef cr dk df by (simp add: openDrop_def)
qed

section \<open>The sample primitives meet the assumptions\<close>

lemma sample_digest_32: "digest_32 sample_lib"
  by (auto simp: digest_32_def sample_lib_def sample_keccak_def)

lemma sample_gcm_correct: "gcm_correct sample_lib"
  by (simp add: gcm_correct_def sample_lib_def sample_encrypt_def sample_decrypt_def
      sample_tag_def Let_def o_def xor.assoc)

lemma xor_all_append: "xor_all (a @ b) = xor_all a XOR xor_all b"
  by (induction a) (simp_all add: xor_all_def xor.assoc)

lemma xor_all_update:
  "i < length bs \<Longrightarrow> xor_all (bs[i := bs ! i XOR m]) = xor_all bs XOR m"
proof (induction bs arbitrary: i)
  case Nil
  then show ?case by simp
next
  case (Cons b bs)
  show ?case
  proof (cases i)
    case 0
    then show ?thesis by (simp add: xor_all_def ac_simps)
  next
    case (Suc k)
    with Cons show ?thesis by (simp add: xor_all_def xor.assoc)
  qed
qed

lemma push_bit_1_byte: "j < 8 \<Longrightarrow> push_bit j (1::byte) \<noteq> 0"
  by (simp add: push_bit_eq_0_iff possible_bit_word) 

lemma xor_neq:
  assumes "(m::byte) \<noteq> 0"
  shows "b XOR m \<noteq> b"
proof
  assume "b XOR m = b"
  then have "b XOR (b XOR m) = b XOR b" by simp
  then have "m = 0" by (simp add: xor.assoc [symmetric])
  then show False using assms by simp
qed

lemma flip_one_bit_append_right:
  "length a \<le> i \<Longrightarrow> flip_one_bit i j (a @ b) = a @ flip_one_bit (i - length a) j b"
  by (simp add: flip_one_bit_def list_update_append nth_append)

lemma flip_one_bit_append_left:
  "i < length a \<Longrightarrow> flip_one_bit i j (a @ b) = flip_one_bit i j a @ b"
  by (simp add: flip_one_bit_def list_update_append nth_append)

lemma length_flip_one_bit: "length (flip_one_bit i j buf) = length buf"
  by (simp add: flip_one_bit_def)

lemma flip_one_bit_neq: "i < length buf \<Longrightarrow> j < 8 \<Longrightarrow> flip_one_bit i j buf \<noteq> buf"
proof
  assume a: "i < length buf" "j < 8" and e: "flip_one_bit i j buf = buf"
  have "flip_one_bit i j buf ! i = buf ! i XOR push_bit j 1" using a by (simp add: flip_one_bit_def)
  with e have "buf ! i XOR push_bit j 1 = buf ! i" by simp
  then show False using xor_neq [OF push_bit_1_byte [OF a(2)]] by blast
qed

lemma sample_detects_flips: "gcm_detects_flips sample_lib k"
  unfolding gcm_detects_flips_def
proof (intro allI impI, elim conjE)
  fix n data encrypted tag :: bytes and i j :: nat
  assume e: "aes_256_gcm_encrypt sample_lib k n data = Some (encrypted, tag)"
    and lt: "length tag = 16" and i: "i < length (tag @ encrypted)" and j: "j < 8"
  have tag: "tag = sample_tag k n encrypted"
    using e by (auto simp: sample_lib_def sample_encrypt_def Let_def split: if_splits)
  show "aes_256_gcm_decrypt sample_lib k n (take 16 (flip_one_bit i j (tag @ encrypted)))
          (drop 16 (flip_one_bit i j (tag @ encrypted))) = None"
  proof (cases "i < 16")
    case True
    then have f: "flip_one_bit i j (tag @ encrypted) = flip_one_bit i j tag @ encrypted"
      using lt by (simp add: flip_one_bit_append_left)
    have td: "take 16 (flip_one_bit i j (tag @ encrypted)) = flip_one_bit i j tag"
      "drop 16 (flip_one_bit i j (tag @ encrypted)) = encrypted"
      using lt by (simp_all add: f length_flip_one_bit)
    have "flip_one_bit i j tag \<noteq> tag" using True lt j by (simp add: flip_one_bit_neq)
    then have "flip_one_bit i j tag \<noteq> sample_tag k n encrypted" using tag by simp
    then show ?thesis
      unfolding td by (simp add: sample_lib_def sample_decrypt_def)
  next
    case False
    then have f: "flip_one_bit i j (tag @ encrypted) = tag @ flip_one_bit (i - 16) j encrypted"
      using lt by (simp add: flip_one_bit_append_right)
    have i': "i - 16 < length encrypted" using False i lt by simp
    have "xor_all (k @ n @ flip_one_bit (i - 16) j encrypted)
        = xor_all (k @ n @ encrypted) XOR push_bit j 1"
    proof -
      have "xor_all (flip_one_bit (i - 16) j encrypted) = xor_all encrypted XOR push_bit j 1"
        unfolding flip_one_bit_def using i' by (rule xor_all_update)
      then show ?thesis by (simp only: xor_all_append xor.assoc)
    qed
    then have "xor_all (k @ n @ flip_one_bit (i - 16) j encrypted) \<noteq> xor_all (k @ n @ encrypted)"
      using xor_neq [OF push_bit_1_byte [OF j]] by simp
    then have "sample_tag k n (flip_one_bit (i - 16) j encrypted) \<noteq> sample_tag k n encrypted"
      by (simp add: sample_tag_def)
    then have ne: "tag \<noteq> sample_tag k n (flip_one_bit (i - 16) j encrypted)"
      using tag by simp
    have td: "take 16 (flip_one_bit i j (tag @ encrypted)) = tag"
      "drop 16 (flip_one_bit i j (tag @ encrypted)) = flip_one_bit (i - 16) j encrypted"
      using lt by (simp_all add: f)
    show ?thesis
      unfolding td using ne by (simp add: sample_lib_def sample_decrypt_def)
  qed
qed


section \<open>The sample drop\<close>

lemma sample_rng_key: "map sample_rng [0..<32] = sample_key"
  by code_simp

lemma sample_rng_iv: "map (\<lambda>i. sample_rng (i + 32)) [0..<12] = sample_iv"
  by code_simp

lemma sample_rng_iv2: "map (\<lambda>i. sample_rng (i + 12 + 32)) [0..<12] = sample_iv2"
  by code_simp

lemma sample_kek_eq: "sample_keccak (utf8 sample_passphrase) = sample_kek"
  by code_simp

lemma sample_hash_eq: "bytesToHex sample_kek = cr_passphraseHash sample_created"
  by code_simp

lemma sample_encrypt_file:
  "sample_encrypt sample_key sample_iv hello_world =
     Some ([200, 197, 204, 204, 207, 128, 215, 207, 210, 204, 196], replicate 16 52)"
  by code_simp

lemma sample_encrypt_key:
  "sample_encrypt sample_kek sample_iv2 sample_key =
     Some ([2, 10, 20, 32, 46, 62, 80, 100, 122, 146, 172, 200, 230, 6, 40, 76, 114,
            154, 196, 240, 30, 78, 128, 180, 234, 34, 92, 152, 214, 22, 88, 156],
           replicate 16 93)"
  by code_simp

lemma sample_key_envelope:
  "b64_encode (sample_iv2 @ replicate 16 93 @
      [2, 10, 20, 32, 46, 62, 80, 100, 122, 146, 172, 200, 230, 6, 40, 76, 114,
       154, 196, 240, 30, 78, 128, 180, 234, 34, 92, 152, 214, 22, 88, 156])
   = cr_encryptedSymKey sample_created"
  by code_simp

lemma sample_encryptFile:
  "encryptFile sample_lib hello_world sample_rng =
     Some (\<lparr>ef_encryptedData = [200, 197, 204, 204, 207, 128, 215, 207, 210, 204, 196],
            ef_iv = sample_iv, ef_authTag = replicate 16 52, ef_key = sample_key\<rparr>,
           \<lambda>i. sample_rng (i + 12 + 32))"
proof -
  have r1: "randomBytes 32 sample_rng = (sample_key, \<lambda>i. sample_rng (i + 32))"
    by (simp only: randomBytes_def sample_rng_key)
  have r2: "randomBytes 12 (\<lambda>i. sample_rng (i + 32)) = (sample_iv, \<lambda>i. sample_rng (i + 12 + 32))"
    by (simp only: randomBytes_def sample_rng_iv)
  show ?thesis
    unfolding encryptFile_def r1 prod.case r2
    by (simp add: sample_lib_def sample_encrypt_file del: replicate.simps)
qed

lemma sample_encryptSymmetricKey:
  "encryptSymmetricKey sample_lib sample_key sample_passphrase (\<lambda>i. sample_rng (i + 12 + 32)) =
     Some (cr_encryptedSymKey sample_created, \<lambda>i. sample_rng (i + 12 + 12 + 32))"
proof -
  have r3: "randomBytes 12 (\<lambda>i. sample_rng (i + 12 + 32))
      = (sample_iv2, \<lambda>i. sample_rng (i + 12 + 12 + 32))"
    by (simp only: randomBytes_def sample_rng_iv2)
  have k: "kek sample_lib sample_passphrase = sample_kek"
    by (simp add: kek_def sample_lib_def sample_kek_eq)
  show ?thesis
    unfolding encryptSymmetricKey_def r3 prod.case k
    by (simp add: sample_lib_def sample_encrypt_key combine_def Buffer_concat_def
        toString_base64_def sample_key_envelope del: replicate.simps)
qed

lemma sample_passphraseHash:
  "passphraseHash sample_lib sample_passphrase = cr_passphraseHash sample_created"
  by (simp add: passphraseHash_def sample_lib_def sample_kek_eq sample_hash_eq)

lemma sample_created_eq:
  "map_option fst (createDrop sample_lib hello_world sample_passphrase sample_rng)
     = Some sample_created"
proof -
  have c: "combine sample_iv (replicate 16 52)
      [200, 197, 204, 204, 207, 128, 215, 207, 210, 204, 196] = cr_encryptedFile sample_created"
    by (simp add: combine_def Buffer_concat_def sample_created_def del: replicate.simps)
  have "createDrop sample_lib hello_world sample_passphrase sample_rng =
      Some (\<lparr>cr_encryptedFile = cr_encryptedFile sample_created,
              cr_encryptedSymKey = cr_encryptedSymKey sample_created,
              cr_passphraseHash = cr_passphraseHash sample_created\<rparr>,
            \<lambda>i. sample_rng (i + 12 + 12 + 32))"
    by (simp only: createDrop_def sample_encryptFile option.case prod.case
        enc_file.select_convs sample_encryptSymmetricKey sample_passphraseHash c)
  then show ?thesis by simp
qed

section \<open>UTF-8 text\<close>






section \<open>The claim route\<close>

lemma claimDrop_match:
  assumes "led dropId = Some d" "drop_isActive d" "drop_passphraseHash d = bytes32 h"
  shows "BlockDAGService_claimDrop led dropId h =
    (Inr (drop_ipfsHash d, drop_encryptedSymKey d),
     led(dropId \<mapsto> d\<lparr>drop_claimCount := drop_claimCount d + 1\<rparr>))"
  using assms by (simp add: BlockDAGService_claimDrop_def contract_getDrop_def contract_claimDrop_def)

lemma claimDrop_mismatch:
  assumes "led dropId = Some d" "drop_isActive d" "drop_passphraseHash d \<noteq> bytes32 h"
  shows "BlockDAGService_claimDrop led dropId h = (Inl ''Invalid passphrase'', led)"
  using assms by (simp add: BlockDAGService_claimDrop_def contract_getDrop_def contract_claimDrop_def)

text \<open>
  A request that passes the schema reaches the handler; one with an empty \<open>dropId\<close> or
  passphrase is answered before it, and the ledger is not called.
\<close>

lemma claimRoute_valid:
  "dropId \<noteq> [] \<Longrightarrow> passphrase \<noteq> [] \<Longrightarrow>
   claimRoute lib led store dropId passphrase = claimHandler lib led store dropId passphrase"
  by (simp add: claimRoute_def)

lemma claimRoute_empty_dropId:
  "claimRoute lib led store [] passphrase = (ValidationReply ''dropId'', led)"
  by (simp add: claimRoute_def)

lemma claimRoute_empty_passphrase:
  "dropId \<noteq> [] \<Longrightarrow> claimRoute lib led store dropId [] = (ValidationReply ''passphrase'', led)"
  by (simp add: claimRoute_def)

lemma claimHandler_mismatch:
  assumes "led dropId = Some d" "drop_isActive d"
    and "drop_passphraseHash d \<noteq> bytes32 (passphraseHash lib S)"
  shows "claimHandler lib led store dropId S =
    (ErrorReply 401 ''Invalid passphrase'' ''INVALID_PASSPHRASE'', led)"
  unfolding claimHandler_def claimDrop_mismatch [of led dropId d, OF assms] by simp

lemma claimHandler_match:
  assumes "led dropId = Some d" "drop_isActive d"
    and "drop_passphraseHash d = bytes32 (passphraseHash lib S)"
    and "store (drop_ipfsHash d) = Inr data" and "drop_encryptedSymKey d \<noteq> []"
  shows "fst (claimHandler lib led store dropId S) =
    (case decryptSymmetricKey lib (drop_encryptedSymKey d) S of
       None \<Rightarrow> ErrorReply 500 ''Internal server error'' ''CLAIM_ERROR''
     | Some symmetricKey \<Rightarrow>
         (case decryptFile lib data symmetricKey of
            None \<Rightarrow> ErrorReply 500 ''Internal server error'' ''CLAIM_ERROR''
          | Some decryptedFile \<Rightarrow> FileReply decryptedFile))"
  unfolding claimHandler_def claimDrop_match [of led dropId d, OF assms(1-3)]
  using assms(4,5) by (simp add: fetchFile_def)

lemma claimHandler_wrong_digest:
  assumes "led dropId = Some d" and "drop_isActive d"
    and "drop_passphraseHash d = bytes32 (passphraseHash lib S1)"
    and "keccak_256 lib (utf8 S1) \<noteq> keccak_256 lib (utf8 S2)"
  shows "claimHandler lib led store dropId S2 =
    (ErrorReply 401 ''Invalid passphrase'' ''INVALID_PASSPHRASE'', led)"
proof -
  have "passphraseHash lib S1 \<noteq> passphraseHash lib S2"
    using assms(4) by (simp add: passphraseHash_eq_iff)
  then have "drop_passphraseHash d \<noteq> bytes32 (passphraseHash lib S2)"
    using assms(3) by (simp add: bytes32_passphraseHash)
  then show ?thesis by (rule claimHandler_mismatch [of led dropId d, OF assms(1,2)])
qed

section \<open>Tampered envelopes and wrong keys\<close>

lemma extractEnvelope_flip:
  assumes "length n = 12" and "12 \<le> i"
  shows "extractEnvelope (flip_one_bit i j (combine n tag encrypted)) =
    (n, take 16 (flip_one_bit (i - 12) j (tag @ encrypted)),
        drop 16 (flip_one_bit (i - 12) j (tag @ encrypted)))"
proof -
  have "flip_one_bit i j (combine n tag encrypted) = n @ flip_one_bit (i - 12) j (tag @ encrypted)"
    using assms by (simp add: combine_def Buffer_concat_def flip_one_bit_append_right)
  then show ?thesis
    using assms(1)
    by (simp add: extractEnvelope_def subarray_def subarray_from_def drop_take)
qed

lemma tampered_rejected:
  assumes "gcm_detects_flips lib k"
    and "aes_256_gcm_encrypt lib k n data = Some (encrypted, tag)"
    and "length n = 12" and "length tag = 16"
    and "12 \<le> i" and "i < length (combine n tag encrypted)" and "j < 8"
  shows "(case extractEnvelope (flip_one_bit i j (combine n tag encrypted)) of
            (n', tag', encrypted') \<Rightarrow> aes_256_gcm_decrypt lib k n' tag' encrypted') = None"
proof -
  have "i - 12 < length (tag @ encrypted)"
    using assms(3,5,6) by (simp add: combine_def Buffer_concat_def)
  then have "aes_256_gcm_decrypt lib k n (take 16 (flip_one_bit (i - 12) j (tag @ encrypted)))
      (drop 16 (flip_one_bit (i - 12) j (tag @ encrypted))) = None"
    using assms(1,2,4,7) unfolding gcm_detects_flips_def by blast
  then show ?thesis by (simp add: extractEnvelope_flip [OF assms(3,5)])
qed

lemma createDrop_SomeD:
  assumes "digest_32 lib" and "gcm_correct lib" and "createDrop lib P S g = Some (r, g')"
  obtains k n tag encrypted n2 tag2 ek where
    "k = fst (randomBytes 32 g)"
    "cr_encryptedFile r = combine n tag encrypted"
    "cr_encryptedSymKey r = toString_base64 (combine n2 tag2 ek)"
    "cr_passphraseHash r = passphraseHash lib S"
    "length n = 12" "length tag = 16" "length n2 = 12" "length tag2 = 16"
    "aes_256_gcm_encrypt lib k n P = Some (encrypted, tag)"
    "aes_256_gcm_decrypt lib k n tag encrypted = Some P"
    "aes_256_gcm_encrypt lib (kek lib S) n2 k = Some (ek, tag2)"
    "aes_256_gcm_decrypt lib (kek lib S) n2 tag2 ek = Some k"
proof (rule createDrop_ok [OF assms(1,2), of P g S])
  fix ef g1 n2 tag2 ek g2
  assume "encryptFile lib P g = Some (ef, g1)"
    and k: "ef_key ef = fst (randomBytes 32 g)"
    and l: "length (ef_iv ef) = 12" "length (ef_authTag ef) = 16"
    and e: "aes_256_gcm_encrypt lib (ef_key ef) (ef_iv ef) P = Some (ef_encryptedData ef, ef_authTag ef)"
    and d: "aes_256_gcm_decrypt lib (ef_key ef) (ef_iv ef) (ef_authTag ef) (ef_encryptedData ef) = Some P"
    and l2: "length n2 = 12" "length tag2 = 16"
    and e2: "aes_256_gcm_encrypt lib (kek lib S) n2 (ef_key ef) = Some (ek, tag2)"
    and d2: "aes_256_gcm_decrypt lib (kek lib S) n2 tag2 ek = Some (ef_key ef)"
    and cr: "createDrop lib P S g =
       Some (\<lparr>cr_encryptedFile = combine (ef_iv ef) (ef_authTag ef) (ef_encryptedData ef),
              cr_encryptedSymKey = toString_base64 (combine n2 tag2 ek),
              cr_passphraseHash = passphraseHash lib S\<rparr>, g2)"
  have r: "r = \<lparr>cr_encryptedFile = combine (ef_iv ef) (ef_authTag ef) (ef_encryptedData ef),
              cr_encryptedSymKey = toString_base64 (combine n2 tag2 ek),
              cr_passphraseHash = passphraseHash lib S\<rparr>"
    using cr assms(3) by simp
  show thesis
    by (rule that [of "ef_key ef" "ef_iv ef" "ef_authTag ef" "ef_encryptedData ef" n2 tag2 ek])
       (simp_all add: r l l2 e d e2 d2, simp add: k)
qed


lemma claimHandler_key_tamper:
  assumes "digest_32 lib" and "gcm_correct lib" and "gcm_detects_flips lib (kek lib S)"
    and "createDrop lib P S g = Some (r, g')"
    and "led dropId = Some d" and "drop_isActive d"
    and "drop_passphraseHash d = bytes32 (cr_passphraseHash r)"
    and "store (drop_ipfsHash d) = Inr data"
    and "12 \<le> i" and "i < length (Buffer_from_base64 (cr_encryptedSymKey r))" and "j < 8"
    and "drop_encryptedSymKey d =
           toString_base64 (flip_one_bit i j (Buffer_from_base64 (cr_encryptedSymKey r)))"
  shows "fst (claimHandler lib led store dropId S) =
           ErrorReply 500 ''Internal server error'' ''CLAIM_ERROR''"
proof (rule createDrop_SomeD [OF assms(1,2,4)])
  fix k n tag encrypted n2 tag2 ek
  assume esk: "cr_encryptedSymKey r = toString_base64 (combine n2 tag2 ek)"
    and h: "cr_passphraseHash r = passphraseHash lib S"
    and l2: "length n2 = 12" "length tag2 = 16"
    and e2: "aes_256_gcm_encrypt lib (kek lib S) n2 k = Some (ek, tag2)"
  have i: "i < length (combine n2 tag2 ek)"
    using assms(10) by (simp add: esk Buffer_from_base64_toString)
  have env: "drop_encryptedSymKey d = toString_base64 (flip_one_bit i j (combine n2 tag2 ek))"
    using assms(12) by (simp add: esk Buffer_from_base64_toString)
  have "flip_one_bit i j (combine n2 tag2 ek) \<noteq> []"
    using i by (auto simp: flip_one_bit_def)
  then have ne: "drop_encryptedSymKey d \<noteq> []"
    unfolding env by (rule toString_base64_nonempty)
  have rej: "decryptSymmetricKey lib (drop_encryptedSymKey d) S = None"
    unfolding decryptSymmetricKey_def env Buffer_from_base64_toString
    by (rule tampered_rejected [OF assms(3) e2 l2 assms(9) i assms(11)])
  have dh: "drop_passphraseHash d = bytes32 (passphraseHash lib S)"
    using assms(7) h by simp
  show ?thesis
    unfolding claimHandler_match [of led dropId d lib S store data, OF assms(5,6) dh assms(8) ne]
    by (simp add: rej)
qed

lemma claimHandler_file_tamper:
  assumes "digest_32 lib" and "gcm_correct lib"
    and "gcm_detects_flips lib (fst (randomBytes 32 g))"
    and "createDrop lib P S g = Some (r, g')"
    and "led dropId = Some d" and "drop_isActive d"
    and "drop_passphraseHash d = bytes32 (cr_passphraseHash r)"
    and "drop_encryptedSymKey d = cr_encryptedSymKey r"
    and "12 \<le> i" and "i < length (cr_encryptedFile r)" and "j < 8"
    and "store (drop_ipfsHash d) = Inr (flip_one_bit i j (cr_encryptedFile r))"
  shows "fst (claimHandler lib led store dropId S) =
           ErrorReply 500 ''Internal server error'' ''CLAIM_ERROR''
       \<and> (\<exists>k. decryptSymmetricKey lib (drop_encryptedSymKey d) S = Some k
              \<and> decryptFile lib (flip_one_bit i j (cr_encryptedFile r)) k = None)"
proof (rule createDrop_SomeD [OF assms(1,2,4)])
  fix k n tag encrypted n2 tag2 ek
  assume k: "k = fst (randomBytes 32 g)"
    and ef: "cr_encryptedFile r = combine n tag encrypted"
    and esk: "cr_encryptedSymKey r = toString_base64 (combine n2 tag2 ek)"
    and h: "cr_passphraseHash r = passphraseHash lib S"
    and l: "length n = 12" "length tag = 16" and l2: "length n2 = 12" "length tag2 = 16"
    and e: "aes_256_gcm_encrypt lib k n P = Some (encrypted, tag)"
    and d2: "aes_256_gcm_decrypt lib (kek lib S) n2 tag2 ek = Some k"
  have det: "gcm_detects_flips lib k" using assms(3) k by simp
  have ne: "drop_encryptedSymKey d \<noteq> []"
    unfolding assms(8) esk
    by (rule toString_base64_nonempty) (rule combine_nonempty [OF l2(1)])
  have dk: "decryptSymmetricKey lib (drop_encryptedSymKey d) S = Some k"
    unfolding assms(8) esk using d2 by (simp add: decryptSymmetricKey_envelope [OF l2])
  have i: "i < length (combine n tag encrypted)" using assms(10) by (simp add: ef)
  have rej: "decryptFile lib (flip_one_bit i j (cr_encryptedFile r)) k = None"
    unfolding decryptFile_def ef
    by (rule tampered_rejected [OF det e l assms(9) i assms(11)])
  have dh: "drop_passphraseHash d = bytes32 (passphraseHash lib S)"
    using assms(7) h by simp
  have "fst (claimHandler lib led store dropId S) =
           ErrorReply 500 ''Internal server error'' ''CLAIM_ERROR''"
    unfolding claimHandler_match [of led dropId d lib S store "flip_one_bit i j (cr_encryptedFile r)",
        OF assms(5,6) dh assms(12) ne]
    by (simp add: dk rej)
  then show ?thesis using dk rej by simp
qed

section \<open>What a claim is answered\<close>


text \<open>
  C5, as amended. A wrong passphrase and a tampered key envelope are reported
  differently. A claim with a passphrase whose digest differs from the commitment is
  refused by the ledger and answered 401 \<open>INVALID_PASSPHRASE\<close>. A claim with the correct
  passphrase on a drop whose key envelope has one bit flipped in its tag or ciphertext
  passes the ledger, fails in \<^verbatim>\<open>decryptSymmetricKey\<close> and is answered 500
  \<open>CLAIM_ERROR\<close> by the handler's \<open>catch\<close>. These are the replies of the handler, and of
  the route for every request that passes its schema. The cipher is assumed to detect a
  flipped bit under the key in use here, the digest of the passphrase.
\<close>

theorem C5_reported_failures:
  assumes "digest_32 lib" and "gcm_correct lib" and "gcm_detects_flips lib (kek lib S)"
    and "createDrop lib P S g = Some (r, g')"
    and "led dropId = Some d" and "drop_isActive d"
    and "drop_passphraseHash d = bytes32 (cr_passphraseHash r)"
    and "keccak_256 lib (utf8 S) \<noteq> keccak_256 lib (utf8 S')"
    and "led' dropId = Some d'" and "drop_isActive d'"
    and "drop_passphraseHash d' = bytes32 (cr_passphraseHash r)"
    and "store (drop_ipfsHash d') = Inr data"
    and "12 \<le> i" and "i < length (Buffer_from_base64 (cr_encryptedSymKey r))" and "j < 8"
    and "drop_encryptedSymKey d' =
           toString_base64 (flip_one_bit i j (Buffer_from_base64 (cr_encryptedSymKey r)))"
  shows "fst (claimHandler lib led store dropId S')
           = ErrorReply 401 ''Invalid passphrase'' ''INVALID_PASSPHRASE''
       \<and> fst (claimHandler lib led' store dropId S)
           = ErrorReply 500 ''Internal server error'' ''CLAIM_ERROR''
       \<and> fst (claimHandler lib led store dropId S') \<noteq> fst (claimHandler lib led' store dropId S)
       \<and> (dropId \<noteq> [] \<and> S \<noteq> [] \<and> S' \<noteq> [] \<longrightarrow>
            fst (claimRoute lib led store dropId S')
              = ErrorReply 401 ''Invalid passphrase'' ''INVALID_PASSPHRASE''
          \<and> fst (claimRoute lib led' store dropId S)
              = ErrorReply 500 ''Internal server error'' ''CLAIM_ERROR''
          \<and> fst (claimRoute lib led store dropId S') \<noteq> fst (claimRoute lib led' store dropId S))"
proof -
  have h: "cr_passphraseHash r = passphraseHash lib S"
    by (rule createDrop_SomeD [OF assms(1,2,4)])
  have a: "claimHandler lib led store dropId S' =
      (ErrorReply 401 ''Invalid passphrase'' ''INVALID_PASSPHRASE'', led)"
    using assms(5,6) assms(7) [unfolded h] assms(8) by (rule claimHandler_wrong_digest)
  have b: "fst (claimHandler lib led' store dropId S) =
      ErrorReply 500 ''Internal server error'' ''CLAIM_ERROR''"
    using assms(1,2,3,4) assms(9-16) by (rule claimHandler_key_tamper)
  show ?thesis using a b by (simp add: claimRoute_valid)
qed

text \<open>
  C6, as amended. For every drop and every single-bit flip in the tag or ciphertext
  region of the file envelope (byte index 12 or higher), a claim with the correct
  passphrase returns no plaintext: the ledger accepts the passphrase hash,
  \<^verbatim>\<open>decryptSymmetricKey\<close> returns the file key, \<^verbatim>\<open>decryptFile\<close> throws, and the
  handler's \<open>catch\<close> answers 500 \<open>CLAIM_ERROR\<close>. That reply is not the 401
  \<open>INVALID_PASSPHRASE\<close> of a passphrase that the ledger refuses, but it is no class of
  its own: a claim on the same drop with a flipped bit in the key envelope, where
  \<^verbatim>\<open>decryptSymmetricKey\<close> throws, gets the same reply. The request passes the
  route's schema. The cipher is assumed to detect a flipped bit under the two keys in
  use here, the file key drawn by \<^verbatim>\<open>encryptFile\<close> and the digest of the passphrase.
\<close>

theorem C6_file_envelope_tamper:
  assumes "digest_32 lib" and "gcm_correct lib"
    and "gcm_detects_flips lib (fst (randomBytes 32 g))"
    and "gcm_detects_flips lib (kek lib S)"
    and "createDrop lib P S g = Some (r, g')"
    and "dropId \<noteq> []" and "S \<noteq> []"
    and "led dropId = Some d" and "drop_isActive d"
    and "drop_passphraseHash d = bytes32 (cr_passphraseHash r)"
    and "drop_encryptedSymKey d = cr_encryptedSymKey r"
    and "12 \<le> i" and "i < length (cr_encryptedFile r)" and "j < 8"
    and "store (drop_ipfsHash d) = Inr (flip_one_bit i j (cr_encryptedFile r))"
    and "led' dropId = Some d'" and "drop_isActive d'"
    and "drop_passphraseHash d' = bytes32 (cr_passphraseHash r)"
    and "store' (drop_ipfsHash d') = Inr data"
    and "12 \<le> i'" and "i' < length (Buffer_from_base64 (cr_encryptedSymKey r))" and "j' < 8"
    and "drop_encryptedSymKey d' =
           toString_base64 (flip_one_bit i' j' (Buffer_from_base64 (cr_encryptedSymKey r)))"
  shows "fst (claimRoute lib led store dropId S) =
           ErrorReply 500 ''Internal server error'' ''CLAIM_ERROR''
       \<and> (\<exists>k. decryptSymmetricKey lib (drop_encryptedSymKey d) S = Some k
              \<and> decryptFile lib (flip_one_bit i j (cr_encryptedFile r)) k = None)
       \<and> (\<forall>file. fst (claimRoute lib led store dropId S) \<noteq> FileReply file)
       \<and> fst (claimRoute lib led store dropId S)
           \<noteq> ErrorReply 401 ''Invalid passphrase'' ''INVALID_PASSPHRASE''
       \<and> fst (claimRoute lib led' store' dropId S) = fst (claimRoute lib led store dropId S)"
proof -
  have a: "fst (claimHandler lib led store dropId S) =
           ErrorReply 500 ''Internal server error'' ''CLAIM_ERROR''
       \<and> (\<exists>k. decryptSymmetricKey lib (drop_encryptedSymKey d) S = Some k
              \<and> decryptFile lib (flip_one_bit i j (cr_encryptedFile r)) k = None)"
    using assms(1,2,3,5) assms(8-15) by (rule claimHandler_file_tamper)
  have b: "fst (claimHandler lib led' store' dropId S) =
      ErrorReply 500 ''Internal server error'' ''CLAIM_ERROR''"
    using assms(1,2,4,5) assms(16-23) by (rule claimHandler_key_tamper)
  show ?thesis using a b by (simp add: claimRoute_valid [OF assms(6,7)])
qed

section \<open>The routes on the sample drop\<close>

lemma sample_created_Some:
  obtains g' where "createDrop sample_lib hello_world sample_passphrase sample_rng
    = Some (sample_created, g')"
  using sample_created_eq by (cases "createDrop sample_lib hello_world sample_passphrase sample_rng") auto

lemma sample_bytes32: "bytes32 (cr_passphraseHash sample_created) = ''0x'' @ cr_passphraseHash sample_created"
  unfolding sample_passphraseHash [symmetric] by (rule bytes32_passphraseHash)

lemma sample_ledger_drop: "sample_ledger ''ab12cd34'' = Some sample_drop"
  by (simp add: sample_ledger_def BlockDAGService_createDrop_def contract_createDrop_def
      sample_drop_def sample_bytes32)

lemma tampered_ledger_drop: "tampered_ledger ''ab12cd34'' = Some tampered_drop"
  by (simp add: tampered_ledger_def BlockDAGService_createDrop_def contract_createDrop_def
      tampered_drop_def sample_drop_def sample_bytes32)

lemma sample_drop_fields:
  "drop_isActive sample_drop" "drop_isActive tampered_drop"
  "drop_passphraseHash sample_drop = bytes32 (cr_passphraseHash sample_created)"
  "drop_passphraseHash tampered_drop = bytes32 (cr_passphraseHash sample_created)"
  "drop_passphraseHash sample_drop = bytes32 (passphraseHash sample_lib sample_passphrase)"
  "drop_encryptedSymKey sample_drop = cr_encryptedSymKey sample_created"
  "drop_ipfsHash sample_drop = ''QmSample''" "drop_ipfsHash tampered_drop = ''QmSample''"
  by (simp_all add: sample_drop_def tampered_drop_def sample_bytes32 sample_passphraseHash)

lemma sample_store_file: "sample_store ''QmSample'' = Inr (cr_encryptedFile sample_created)"
  by (simp add: sample_store_def)

lemma sample_nonempty: "''ab12cd34'' \<noteq> []" "sample_passphrase \<noteq> []" "''wrong-guess'' \<noteq> []"
  by (simp_all add: sample_passphrase_def)


lemma sample_digests_differ:
  "keccak_256 sample_lib (utf8 sample_passphrase) \<noteq> keccak_256 sample_lib (utf8 ''wrong-guess'')"
  by code_simp



lemma sample_key_envelope_bytes:
  "Buffer_from_base64 (cr_encryptedSymKey sample_created) =
     sample_iv2 @ replicate 16 93 @
      [2, 10, 20, 32, 46, 62, 80, 100, 122, 146, 172, 200, 230, 6, 40, 76, 114,
       154, 196, 240, 30, 78, 128, 180, 234, 34, 92, 152, 214, 22, 88, 156]"
  unfolding sample_key_envelope [symmetric] toString_base64_def [symmetric]
  by (rule Buffer_from_base64_toString)

lemma tampered_key_envelope:
  "toString_base64 (flip_one_bit 59 0 (Buffer_from_base64 (cr_encryptedSymKey sample_created)))
    = ''xyeJ7VO7JZH/b+FVXV1dXV1dXV1dXV1dXV1dXQIKFCAuPlBkepKsyOYGKExymsTwHk6AtOoiXJjWFlid''"
  unfolding sample_key_envelope_bytes by code_simp

lemma tampered_drop_key:
  "drop_encryptedSymKey tampered_drop =
     toString_base64 (flip_one_bit 59 0 (Buffer_from_base64 (cr_encryptedSymKey sample_created)))"
  unfolding tampered_key_envelope by (simp add: tampered_drop_def)

lemma sample_key_envelope_length:
  "59 < length (Buffer_from_base64 (cr_encryptedSymKey sample_created))"
  unfolding sample_key_envelope_bytes by (simp add: sample_iv2_def)

lemma tampered_file_envelope:
  "flip_one_bit 30 0 (cr_encryptedFile sample_created) =
     sample_iv @ replicate 16 52 @ [200, 197, 205, 204, 207, 128, 215, 207, 210, 204, 196]"
  by code_simp

lemma tampered_store_file:
  "tampered_store ''QmSample'' = Inr (flip_one_bit 30 0 (cr_encryptedFile sample_created))"
  unfolding tampered_file_envelope by (simp add: tampered_store_def)

lemma sample_file_envelope_length: "30 < length (cr_encryptedFile sample_created)"
  by (simp add: sample_created_def sample_iv_def)

lemma sample_key_tamper:
  "fst (claimHandler sample_lib tampered_ledger sample_store ''ab12cd34'' sample_passphrase)
     = ErrorReply 500 ''Internal server error'' ''CLAIM_ERROR''"
proof -
  obtain g' where c: "createDrop sample_lib hello_world sample_passphrase sample_rng
      = Some (sample_created, g')"
    by (rule sample_created_Some)
  show ?thesis
    by (rule claimHandler_key_tamper [where i = 59 and j = 0 and r = sample_created
          and led = tampered_ledger and d = tampered_drop
          and data = "cr_encryptedFile sample_created",
          OF sample_digest_32 sample_gcm_correct sample_detects_flips c tampered_ledger_drop
             sample_drop_fields(2,4) _ _ sample_key_envelope_length _ tampered_drop_key])
       (simp_all add: sample_store_file sample_drop_fields)
qed

lemma sample_file_tamper:
  "fst (claimHandler sample_lib sample_ledger tampered_store ''ab12cd34'' sample_passphrase)
     = ErrorReply 500 ''Internal server error'' ''CLAIM_ERROR''"
proof -
  obtain g' where c: "createDrop sample_lib hello_world sample_passphrase sample_rng
      = Some (sample_created, g')"
    by (rule sample_created_Some)
  have "fst (claimHandler sample_lib sample_ledger tampered_store ''ab12cd34'' sample_passphrase)
     = ErrorReply 500 ''Internal server error'' ''CLAIM_ERROR''
     \<and> (\<exists>k. decryptSymmetricKey sample_lib (drop_encryptedSymKey sample_drop) sample_passphrase
                 = Some k
              \<and> decryptFile sample_lib (flip_one_bit 30 0 (cr_encryptedFile sample_created)) k
                 = None)"
    by (rule claimHandler_file_tamper [where i = 30 and j = 0 and r = sample_created
          and led = sample_ledger and d = sample_drop,
          OF sample_digest_32 sample_gcm_correct sample_detects_flips c sample_ledger_drop
             sample_drop_fields(1,3,6)])
       (simp_all add: tampered_store_file sample_file_envelope_length sample_drop_fields)
  then show ?thesis by simp
qed

lemma sample_wrong_passphrase:
  "claimHandler sample_lib sample_ledger sample_store ''ab12cd34'' ''wrong-guess'' =
      (ErrorReply 401 ''Invalid passphrase'' ''INVALID_PASSPHRASE'', sample_ledger)"
  by (rule claimHandler_wrong_digest [of sample_ledger "''ab12cd34''" sample_drop sample_lib
        sample_passphrase "''wrong-guess''" sample_store,
        OF sample_ledger_drop sample_drop_fields(1,5) sample_digests_differ])

theorem C1_round_trip_witness:
  "\<exists>r g' ef g1.
       createDrop sample_lib [] sample_passphrase sample_rng = Some (r, g')
     \<and> encryptFile sample_lib [] sample_rng = Some (ef, g1)
     \<and> decryptSymmetricKey sample_lib (cr_encryptedSymKey r) sample_passphrase = Some (ef_key ef)
     \<and> decryptFile sample_lib (cr_encryptedFile r) (ef_key ef) = Some []
     \<and> openDrop sample_lib (cr_encryptedFile r) (cr_encryptedSymKey r) sample_passphrase = Some []"
  by (rule C1_round_trip [OF sample_digest_32 sample_gcm_correct])


text \<open>
  The claim C5 as stated fails on the sample drop: the tampered key envelope with the
  correct passphrase and the genuine drop with a wrong passphrase get two replies.
\<close>

theorem C5_counterexample:
  "fst (claimRoute sample_lib tampered_ledger sample_store ''ab12cd34'' sample_passphrase)
     = ErrorReply 500 ''Internal server error'' ''CLAIM_ERROR''
 \<and> fst (claimRoute sample_lib sample_ledger sample_store ''ab12cd34'' ''wrong-guess'')
     = ErrorReply 401 ''Invalid passphrase'' ''INVALID_PASSPHRASE''"
  by (simp add: claimRoute_valid sample_nonempty sample_key_tamper sample_wrong_passphrase)

theorem C5_reported_failures_witness:
  "fst (claimHandler sample_lib sample_ledger sample_store ''ab12cd34'' ''wrong-guess'')
     = ErrorReply 401 ''Invalid passphrase'' ''INVALID_PASSPHRASE''
 \<and> fst (claimHandler sample_lib tampered_ledger sample_store ''ab12cd34'' sample_passphrase)
     = ErrorReply 500 ''Internal server error'' ''CLAIM_ERROR''
 \<and> fst (claimRoute sample_lib sample_ledger sample_store ''ab12cd34'' ''wrong-guess'')
     = ErrorReply 401 ''Invalid passphrase'' ''INVALID_PASSPHRASE''
 \<and> fst (claimRoute sample_lib tampered_ledger sample_store ''ab12cd34'' sample_passphrase)
     = ErrorReply 500 ''Internal server error'' ''CLAIM_ERROR''"
proof -
  obtain g' where c: "createDrop sample_lib hello_world sample_passphrase sample_rng
      = Some (sample_created, g')"
    by (rule sample_created_Some)
  show ?thesis
    using C5_reported_failures [where i = 59 and j = 0 and r = sample_created
          and led = sample_ledger and d = sample_drop and dropId = "''ab12cd34''"
          and led' = tampered_ledger and d' = tampered_drop and store = sample_store
          and data = "cr_encryptedFile sample_created" and S' = "''wrong-guess''",
          OF sample_digest_32 sample_gcm_correct sample_detects_flips c sample_ledger_drop
             sample_drop_fields(1,3) sample_digests_differ tampered_ledger_drop
             sample_drop_fields(2,4) _ _ sample_key_envelope_length _ tampered_drop_key]
    by (simp add: sample_store_file sample_drop_fields sample_nonempty)
qed

text \<open>
  The claim C6 as stated fails on the sample drop: with the correct passphrase, the
  flipped bit in the file envelope gets the reply of the flipped bit in the key
  envelope, the failure that the specification reports as InvalidPassphrase. The
  handler has one reply for every exception, and none that names a corrupted payload.
\<close>

theorem C6_counterexample:
  "fst (claimRoute sample_lib sample_ledger tampered_store ''ab12cd34'' sample_passphrase)
     = ErrorReply 500 ''Internal server error'' ''CLAIM_ERROR''
 \<and> fst (claimRoute sample_lib tampered_ledger sample_store ''ab12cd34'' sample_passphrase)
     = fst (claimRoute sample_lib sample_ledger tampered_store ''ab12cd34'' sample_passphrase)"
  by (simp add: claimRoute_valid sample_nonempty sample_key_tamper sample_file_tamper)

theorem C6_file_envelope_tamper_witness:
  "fst (claimRoute sample_lib sample_ledger tampered_store ''ab12cd34'' sample_passphrase) =
           ErrorReply 500 ''Internal server error'' ''CLAIM_ERROR''
       \<and> (\<exists>k. decryptSymmetricKey sample_lib (drop_encryptedSymKey sample_drop) sample_passphrase
                 = Some k
              \<and> decryptFile sample_lib (flip_one_bit 30 0 (cr_encryptedFile sample_created)) k
                 = None)
       \<and> fst (claimRoute sample_lib tampered_ledger sample_store ''ab12cd34'' sample_passphrase)
           = fst (claimRoute sample_lib sample_ledger tampered_store ''ab12cd34'' sample_passphrase)"
proof -
  obtain g' where c: "createDrop sample_lib hello_world sample_passphrase sample_rng
      = Some (sample_created, g')"
    by (rule sample_created_Some)
  have "fst (claimRoute sample_lib sample_ledger tampered_store ''ab12cd34'' sample_passphrase) =
           ErrorReply 500 ''Internal server error'' ''CLAIM_ERROR''
       \<and> (\<exists>k. decryptSymmetricKey sample_lib (drop_encryptedSymKey sample_drop) sample_passphrase
                 = Some k
              \<and> decryptFile sample_lib (flip_one_bit 30 0 (cr_encryptedFile sample_created)) k
                 = None)
       \<and> (\<forall>file. fst (claimRoute sample_lib sample_ledger tampered_store ''ab12cd34''
                         sample_passphrase) \<noteq> FileReply file)
       \<and> fst (claimRoute sample_lib sample_ledger tampered_store ''ab12cd34'' sample_passphrase)
           \<noteq> ErrorReply 401 ''Invalid passphrase'' ''INVALID_PASSPHRASE''
       \<and> fst (claimRoute sample_lib tampered_ledger sample_store ''ab12cd34'' sample_passphrase)
           = fst (claimRoute sample_lib sample_ledger tampered_store ''ab12cd34'' sample_passphrase)"
    by (rule C6_file_envelope_tamper [where i = 30 and j = 0 and r = sample_created
          and led = sample_ledger and d = sample_drop and i' = 59 and j' = 0
          and led' = tampered_ledger and d' = tampered_drop
          and data = "cr_encryptedFile sample_created",
          OF sample_digest_32 sample_gcm_correct sample_detects_flips sample_detects_flips c
             sample_nonempty(1,2) sample_ledger_drop sample_drop_fields(1,3,6) _ _ _ _
             tampered_ledger_drop sample_drop_fields(2,4) _ _ sample_key_envelope_length _
             tampered_drop_key])
       (simp_all add: tampered_store_file sample_store_file sample_file_envelope_length
          sample_drop_fields)
  then show ?thesis by simp
qed

section \<open>The commitment and the key-encryption key\<close>

text \<open>
  C3. The passphrase commitment is computed from the same input by the same function
  as the key-encryption key, with no domain separation: the commitment is the
  hexadecimal text of the key's bytes, and decoding it gives the key.
\<close>

theorem C3_commitment_is_kek:
  "passphraseHash lib S = bytesToHex (kek lib S)
 \<and> hexToBytes (passphraseHash lib S) = Some (kek lib S)"
  by (simp add: passphraseHash_def kek_def hexToBytes_bytesToHex)

text \<open>
  What follows for a drop: the two values that the upload handler sends to the ledger,
  the commitment and the key envelope, are enough to recover the file key, and with the
  file envelope the plaintext; the passphrase is not needed.
\<close>

lemma ledger_values_open_drop:
  assumes "digest_32 lib" and "gcm_correct lib" and "createDrop lib P S g = Some (r, g')"
  shows "\<exists>k' k. hexToBytes (cr_passphraseHash r) = Some k'
         \<and> (case extractEnvelope (Buffer_from_base64 (cr_encryptedSymKey r)) of
               (n, tag, ek) \<Rightarrow> aes_256_gcm_decrypt lib k' n tag ek) = Some k
         \<and> decryptFile lib (cr_encryptedFile r) k = Some P"
proof (rule createDrop_SomeD [OF assms])
  fix k n tag encrypted n2 tag2 ek
  assume ef: "cr_encryptedFile r = combine n tag encrypted"
    and esk: "cr_encryptedSymKey r = toString_base64 (combine n2 tag2 ek)"
    and h: "cr_passphraseHash r = passphraseHash lib S"
    and l: "length n = 12" "length tag = 16" and l2: "length n2 = 12" "length tag2 = 16"
    and "aes_256_gcm_encrypt lib k n P = Some (encrypted, tag)"
    and d: "aes_256_gcm_decrypt lib k n tag encrypted = Some P"
    and "aes_256_gcm_encrypt lib (kek lib S) n2 k = Some (ek, tag2)"
    and d2: "aes_256_gcm_decrypt lib (kek lib S) n2 tag2 ek = Some k"
  have "hexToBytes (cr_passphraseHash r) = Some (kek lib S)"
    by (simp add: h passphraseHash_def kek_def hexToBytes_bytesToHex)
  moreover have "(case extractEnvelope (Buffer_from_base64 (cr_encryptedSymKey r)) of
      (n, tag, ek) \<Rightarrow> aes_256_gcm_decrypt lib (kek lib S) n tag ek) = Some k"
    using d2 by (simp add: esk Buffer_from_base64_toString extractEnvelope_combine [OF l2])
  moreover have "decryptFile lib (cr_encryptedFile r) k = Some P"
    using d by (simp add: ef decryptFile_envelope [OF l])
  ultimately show ?thesis by blast
qed

section \<open>Short envelopes\<close>

text \<open>
  The claim C4 as stated fails: a buffer of 20 bytes is taken apart into a 12-byte
  nonce, an 8-byte tag and an empty ciphertext; nothing fails.
\<close>

theorem C4_counterexample:
  "extractEnvelope (replicate 20 7) = (replicate 12 7, replicate 8 7, [])"
  by (simp add: extractEnvelope_def subarray_def subarray_from_def)

text \<open>
  C4, as amended. Taking an envelope apart never fails and checks no length: a buffer of
  any length is split by position into its first 12 bytes, the next 16 at most and the
  bytes from index 28 on, and \<^verbatim>\<open>decryptFile\<close> and \<^verbatim>\<open>decryptSymmetricKey\<close> hand these
  parts to the cipher. For a buffer shorter than 28 bytes the tag has fewer than 16
  bytes and the ciphertext is empty. A buffer of 28 bytes or more gives a 12-byte nonce,
  a 16-byte tag and a ciphertext of the remaining length, zero included.
\<close>

theorem C4_positional_split:
  "extractEnvelope buf = (take 12 buf, take 16 (drop 12 buf), drop 28 buf)
 \<and> decryptFile lib buf k
     = aes_256_gcm_decrypt lib k (take 12 buf) (take 16 (drop 12 buf)) (drop 28 buf)
 \<and> decryptSymmetricKey lib s S
     = aes_256_gcm_decrypt lib (kek lib S) (take 12 (Buffer_from_base64 s))
         (take 16 (drop 12 (Buffer_from_base64 s))) (drop 28 (Buffer_from_base64 s))
 \<and> (length buf < 28 \<longrightarrow> length (take 16 (drop 12 buf)) < 16 \<and> drop 28 buf = [])
 \<and> (28 \<le> length buf \<longrightarrow>
       length (take 12 buf) = 12 \<and> length (take 16 (drop 12 buf)) = 16
     \<and> length (drop 28 buf) = length buf - 28)"
  by (auto simp: extractEnvelope_def subarray_def subarray_from_def decryptFile_def
      decryptSymmetricKey_def)

theorem C4_positional_split_witness:
  "extractEnvelope (replicate 20 (7::byte)) =
     (take 12 (replicate 20 7), take 16 (drop 12 (replicate 20 7)), drop 28 (replicate 20 7))
 \<and> length (take 16 (drop 12 (replicate 20 (7::byte)))) < 16
 \<and> drop 28 (replicate 20 (7::byte)) = []
 \<and> length (take 12 (replicate 28 (7::byte))) = 12
 \<and> length (take 16 (drop 12 (replicate 28 (7::byte)))) = 16
 \<and> length (drop 28 (replicate 28 (7::byte))) = 28 - 28"
  using C4_positional_split [of "replicate 20 7" sample_lib "[]" "[]" "[]"]
        C4_positional_split [of "replicate 28 7" sample_lib "[]" "[]" "[]"]
  by simp

end
